theory Spec2Isabelle
  imports Complex_Main "HOL-Library.Sublist" "HOL-Library.AList"
begin

section \<open>The ML avatar service (src/ml\_service/app.py)\<close>

text \<open>
  The service is a Flask module with four POST handlers. Each handler reads
  \<^verbatim>\<open>request.json\<close>, a dynamically typed value, and answers with
  \<^verbatim>\<open>jsonify\<close> of a dictionary. The model below takes the parsed request body
  as an argument of every handler and returns either the Python exception that escapes
  the handler or the dictionary handed to \<^verbatim>\<open>jsonify\<close>.

  A Python \<^verbatim>\<open>int\<close> is \<open>JInt\<close>, with an unbounded integer; a finite \<^verbatim>\<open>float\<close> is
  \<open>JNum\<close>, with its value as a rational, and the three other floats are \<open>JInfinity\<close>,
  \<open>JNegInfinity\<close> and \<open>JNaN\<close> (the parser reads a literal such as \<^verbatim>\<open>1e999\<close> as
  infinity). The sign of a zero is not kept: no operation of the handlers observes it.

  In body-type classification the operands of \<^verbatim>\<open>/\<close> come from the request and a
  comparison follows the division, so \<^verbatim>\<open>/\<close> is modelled there as Python computes
  it: the quotient rounded to the nearest IEEE double (ties to even), a conversion of
  \<^verbatim>\<open>int\<close> to \<^verbatim>\<open>float\<close> where the operands are mixed, OverflowError where an
  \<^verbatim>\<open>int\<close> leaves the range of doubles, and the float literals of the comparisons
  rounded as well. In pose detection and measurement extraction every operand is a double
  the handler has just made from draws in a fixed range, nothing can overflow and no
  branch depends on a result; there \<^verbatim>\<open>+\<close>, \<^verbatim>\<open>*\<close>, \<^verbatim>\<open>-\<close> and the division
  by 2.54 are the exact ones and the rounding of each result to a double is left out, as
  it is for the float constants of the responses. The calls of \<^verbatim>\<open>logger.info\<close> are
  modelled only where they can raise (the \<^verbatim>\<open>len(photos)\<close> inside the message).
\<close>

subsection \<open>Values and the Python operations the handlers use\<close>

text \<open>
  A dictionary is an association list; a lookup takes the first binding of the key.
\<close>

datatype json =
    JNull
  | JBool bool
  | JInt int
  | JNum rat
  | JInfinity
  | JNegInfinity
  | JNaN
  | JStr string
  | JArr "json list"
  | JObj "(string \<times> json) list"

datatype py_error =
    AttributeError
  | KeyError string
  | TypeError
  | ZeroDivisionError
  | OverflowError

type_synonym 'a result = "py_error + 'a"

definition then_res :: "'a result \<Rightarrow> ('a \<Rightarrow> 'b result) \<Rightarrow> 'b result" where
  "then_res r f = (case r of Inl e \<Rightarrow> Inl e | Inr v \<Rightarrow> f v)"

text \<open>\<^verbatim>\<open>d.get(k, default)\<close>: only a dict has the method.\<close>

fun py_get :: "json \<Rightarrow> string \<Rightarrow> json \<Rightarrow> json result" where
  "py_get (JObj kvs) k d = Inr (case map_of kvs k of None \<Rightarrow> d | Some v \<Rightarrow> v)"
| "py_get _ k d = Inl AttributeError"

text \<open>\<^verbatim>\<open>d[k]\<close> with a string key: a dict without the key raises KeyError, any
  other value raises TypeError (a string or a list is indexed by integers, the rest is not
  subscriptable).\<close>

fun py_getitem :: "json \<Rightarrow> string \<Rightarrow> json result" where
  "py_getitem (JObj kvs) k = (case map_of kvs k of None \<Rightarrow> Inl (KeyError k) | Some v \<Rightarrow> Inr v)"
| "py_getitem _ k = Inl TypeError"

text \<open>\<^verbatim>\<open>len(v)\<close>: lists, strings and dicts have a length.\<close>

fun py_len :: "json \<Rightarrow> nat result" where
  "py_len (JArr xs) = Inr (length xs)"
| "py_len (JStr s) = Inr (length s)"
| "py_len (JObj kvs) = Inr (length kvs)"
| "py_len _ = Inl TypeError"

text \<open>\<^verbatim>\<open>for x in v\<close>: a list yields its elements, a string its one-character
  strings, a dict its keys.\<close>

fun py_iter :: "json \<Rightarrow> json list result" where
  "py_iter (JArr xs) = Inr xs"
| "py_iter (JStr s) = Inr (map (\<lambda>c. JStr [c]) s)"
| "py_iter (JObj kvs) = Inr (map (\<lambda>kv. JStr (fst kv)) kvs)"
| "py_iter _ = Inl TypeError"

text \<open>\<^verbatim>\<open>s.replace(old, new)\<close> on strings: every occurrence of \<open>old\<close>, found from
  left to right without overlap, becomes \<open>new\<close>. With an empty \<open>old\<close>, \<open>new\<close> is put
  before every character and at the end.\<close>

function replace :: "string \<Rightarrow> string \<Rightarrow> string \<Rightarrow> string" where
  "replace [] old new = (if old = [] then new else [])"
| "replace (c # cs) old new =
     (if old = [] then new @ c # replace cs old new
      else if prefix old (c # cs) then new @ replace (drop (length old) (c # cs)) old new
      else c # replace cs old new)"
  by pat_completeness auto
termination
  by (relation "measure (\<lambda>(s, old, new). length s)") auto

text \<open>The method \<^verbatim>\<open>replace\<close> exists on strings only.\<close>

fun py_replace :: "json \<Rightarrow> string \<Rightarrow> string \<Rightarrow> json result" where
  "py_replace (JStr s) old new = Inr (JStr (replace s old new))"
| "py_replace _ old new = Inl AttributeError"

subsection \<open>Numbers and true division\<close>

text \<open>An operand that is an \<^verbatim>\<open>int\<close>: \<^verbatim>\<open>bool\<close> is a subclass of \<^verbatim>\<open>int\<close>.\<close>

fun int_of :: "json \<Rightarrow> int option" where
  "int_of (JInt i) = Some i"
| "int_of (JBool b) = Some (if b then 1 else 0)"
| "int_of _ = None"

fun is_float :: "json \<Rightarrow> bool" where
  "is_float (JNum r) = True"
| "is_float JInfinity = True"
| "is_float JNegInfinity = True"
| "is_float JNaN = True"
| "is_float _ = False"

definition is_number :: "json \<Rightarrow> bool" where
  "is_number v \<longleftrightarrow> int_of v \<noteq> None \<or> is_float v"

text \<open>The value of a finite number.\<close>

fun num_of :: "json \<Rightarrow> rat option" where
  "num_of (JNum r) = Some r"
| "num_of (JInt i) = Some (of_int i)"
| "num_of (JBool b) = Some (if b then 1 else 0)"
| "num_of _ = None"

text \<open>
  Rounding to the nearest IEEE double, ties to even. The binade of a positive \<open>q\<close> is the
  \<open>e\<close> with \<open>2 ^ e \<le> q < 2 ^ (e + 1)\<close>, found from the number of bits of an integer
  (\<^verbatim>\<open>int.bit_length\<close>). A double has 53 significant bits, so in that binade the
  doubles are the multiples of \<open>2 ^ (e - 52)\<close>; below \<open>2 ^ - 1022\<close> the spacing stays at
  \<open>2 ^ - 1074\<close> (subnormal numbers). A magnitude of at least \<open>2 ^ 1024 - 2 ^ 970\<close> rounds
  beyond the largest double: the result is \<open>None\<close>.
\<close>

fun bit_length :: "nat \<Rightarrow> nat" where
  "bit_length n = (if n = 0 then 0 else Suc (bit_length (n div 2)))"

definition binade :: "rat \<Rightarrow> int" where
  "binade q =
     (if 1 \<le> q then int (bit_length (nat \<lfloor>q\<rfloor>)) - 1
      else - int (bit_length (nat (\<lceil>1 / q\<rceil> - 1))))"

definition round_half_even :: "rat \<Rightarrow> int" where
  "round_half_even x =
     (let f = \<lfloor>x\<rfloor>; d = x - of_int f
      in if d < 1 / 2 then f else if 1 / 2 < d then f + 1 else if even f then f else f + 1)"

definition double_overflow :: rat where
  "double_overflow = 2 ^ 1024 - 2 ^ 970"

definition round_double :: "rat \<Rightarrow> rat option" where
  "round_double q =
     (if double_overflow \<le> \<bar>q\<bar> then None
      else if q = 0 then Some 0
      else let ulp = 2 powi (max (binade \<bar>q\<bar>) (- 1022) - 52)
           in Some (sgn q * of_int (round_half_even (\<bar>q\<bar> / ulp)) * ulp))"

text \<open>A float literal of the source: the decimal, rounded.\<close>

definition py_float :: "rat \<Rightarrow> json" where
  "py_float d =
     (case round_double d of
        Some r \<Rightarrow> JNum r
      | None \<Rightarrow> if 0 < d then JInfinity else JNegInfinity)"

text \<open>The conversion of an operand to a double, as the float operations do it: a float
  stays, an \<^verbatim>\<open>int\<close> is rounded and raises OverflowError when it is too large.\<close>

definition as_double :: "json \<Rightarrow> json result" where
  "as_double v =
     (case int_of v of
        Some i \<Rightarrow>
          (case round_double (of_int i) of
             None \<Rightarrow> Inl OverflowError
           | Some r \<Rightarrow> Inr (JNum r))
      | None \<Rightarrow> if is_float v then Inr v else Inl TypeError)"

text \<open>The division of two doubles with a divisor that is not zero: the rounded quotient,
  an infinity when it overflows, and the IEEE results for infinite and NaN operands.\<close>

fun ieee_div :: "json \<Rightarrow> json \<Rightarrow> json" where
  "ieee_div (JNum x) (JNum y) =
     (case round_double (x / y) of
        Some r \<Rightarrow> JNum r
      | None \<Rightarrow> if 0 < x / y then JInfinity else JNegInfinity)"
| "ieee_div (JNum x) JInfinity = JNum 0"
| "ieee_div (JNum x) JNegInfinity = JNum 0"
| "ieee_div JInfinity (JNum y) = (if 0 < y then JInfinity else JNegInfinity)"
| "ieee_div JNegInfinity (JNum y) = (if 0 < y then JNegInfinity else JInfinity)"
| "ieee_div _ _ = JNaN"

text \<open>\<^verbatim>\<open>float.__truediv__\<close>: a zero divisor raises, whatever the dividend.\<close>

definition float_div :: "json \<Rightarrow> json \<Rightarrow> json result" where
  "float_div x y = (if y = JNum 0 then Inl ZeroDivisionError else Inr (ieee_div x y))"

text \<open>
  \<^verbatim>\<open>a / b\<close>, true division. Two \<^verbatim>\<open>int\<close>s give the correctly rounded quotient, or
  OverflowError when it is too large for a double. With a float among the operands both
  are converted to doubles, the left one first, and divided as doubles. An operand that
  is no number raises TypeError before anything is converted.
\<close>

definition py_truediv :: "json \<Rightarrow> json \<Rightarrow> json result" where
  "py_truediv a b =
     (if \<not> (is_number a \<and> is_number b) then Inl TypeError
      else case (int_of a, int_of b) of
        (Some i, Some j) \<Rightarrow>
          if j = 0 then Inl ZeroDivisionError
          else (case round_double (of_int i / of_int j) of
                  None \<Rightarrow> Inl OverflowError
                | Some r \<Rightarrow> Inr (JNum r))
      | _ \<Rightarrow>
          then_res (as_double a) (\<lambda>x.
          then_res (as_double b) (\<lambda>y.
          float_div x y)))"

text \<open>\<^verbatim>\<open>a < b\<close> and \<^verbatim>\<open>a > b\<close> on two floats: a comparison with NaN is false.\<close>

fun py_lt :: "json \<Rightarrow> json \<Rightarrow> bool" where
  "py_lt (JNum x) (JNum y) = (x < y)"
| "py_lt (JNum x) JInfinity = True"
| "py_lt JNegInfinity (JNum y) = True"
| "py_lt JNegInfinity JInfinity = True"
| "py_lt _ _ = False"

definition py_gt :: "json \<Rightarrow> json \<Rightarrow> bool" where
  "py_gt a b = py_lt b a"

text \<open>
  The module registers no error handler and no handler body catches an exception. Flask
  then answers a returned \<^verbatim>\<open>jsonify\<close> value with status 200 and an exception that
  escapes the handler with status 500 (Internal Server Error).
\<close>

definition http_status :: "json result \<Rightarrow> nat" where
  "http_status r = (case r of Inl e \<Rightarrow> 500 | Inr body \<Rightarrow> 200)"

subsection \<open>Background removal\<close>

text \<open>The dictionary appended to \<^verbatim>\<open>processed_photos\<close> for one photo. The value of
  \<^verbatim>\<open>'url'\<close> is evaluated before the value of \<^verbatim>\<open>'type'\<close>.\<close>

definition masked_photo :: "json \<Rightarrow> json result" where
  "masked_photo photo =
     then_res (py_getitem photo ''url'') (\<lambda>u.
     then_res (py_replace u ''.jpg'' ''_masked.jpg'') (\<lambda>u1.
     then_res (py_replace u1 ''.png'' ''_masked.png'') (\<lambda>u2.
     then_res (py_getitem photo ''type'') (\<lambda>t.
     Inr (JObj [(''url'', u2), (''type'', t), (''maskQuality'', JNum 0.95)])))))"

text \<open>The loop \<^verbatim>\<open>for photo in photos: processed_photos.append(...)\<close>.\<close>

fun process_photos :: "json list \<Rightarrow> json list \<Rightarrow> json list result" where
  "process_photos processed_photos [] = Inr processed_photos"
| "process_photos processed_photos (photo # photos) =
     then_res (masked_photo photo) (\<lambda>p. process_photos (processed_photos @ [p]) photos)"

definition remove_background :: "json \<Rightarrow> json result" where
  "remove_background data =
     then_res (py_get data ''photos'' (JArr [])) (\<lambda>photos.
     then_res (py_len photos) (\<lambda>n.
     then_res (py_iter photos) (\<lambda>items.
     then_res (process_photos [] items) (\<lambda>processed_photos.
     Inr (JObj [(''processedPhotos'', JArr processed_photos)])))))"

subsection \<open>The randomness source\<close>

text \<open>
  \<^verbatim>\<open>random.random()\<close> reads and advances the generator of the process. The model
  passes the generator explicitly: \<open>g k\<close> is the value of the \<open>k\<close>-th call from now on, and
  a call returns \<open>g 0\<close> with the generator advanced by one. A generator is valid when every
  draw lies in the half-open interval from 0 to 1, as the library documents.
\<close>

type_synonym rng = "nat \<Rightarrow> rat"

definition random_random :: "rng \<Rightarrow> rat \<times> rng" where
  "random_random g = (g 0, \<lambda>k. g (Suc k))"

definition valid_rng :: "rng \<Rightarrow> bool" where
  "valid_rng g \<longleftrightarrow> (\<forall>k. 0 \<le> g k \<and> g k < 1)"

subsection \<open>Pose detection\<close>

definition landmark_names :: "string list" where
  "landmark_names =
     [''nose'', ''left_eye_inner'', ''left_eye'', ''left_eye_outer'',
      ''right_eye_inner'', ''right_eye'', ''right_eye_outer'',
      ''left_ear'', ''right_ear'', ''mouth_left'', ''mouth_right'',
      ''left_shoulder'', ''right_shoulder'', ''left_elbow'', ''right_elbow'',
      ''left_wrist'', ''right_wrist'', ''left_pinky'', ''right_pinky'',
      ''left_index'', ''right_index'', ''left_thumb'', ''right_thumb'',
      ''left_hip'', ''right_hip'', ''left_knee'', ''right_knee'',
      ''left_ankle'', ''right_ankle'', ''left_heel'', ''right_heel'',
      ''left_foot_index'', ''right_foot_index'']"

text \<open>The dictionary of one point, from the three draws in the order the dict display
  makes them (\<open>x\<close>, \<open>z\<close>, \<open>confidence\<close>), the index and the name.\<close>

definition landmark_point :: "rat \<Rightarrow> rat \<Rightarrow> rat \<Rightarrow> nat \<Rightarrow> string \<Rightarrow> json" where
  "landmark_point rx rz rc i name =
     JObj [(''x'', JNum (0.3 + rx * 0.4)),
           (''y'', JNum ((of_nat i / 33) * 0.9 + 0.05)),
           (''z'', JNum (rz * 0.1 - 0.05)),
           (''confidence'', JNum (0.85 + rc * 0.1)),
           (''name'', JStr name)]"

text \<open>The loop \<^verbatim>\<open>for i, name in enumerate(landmark_names): points.append(...)\<close>.\<close>

fun pose_points :: "rng \<Rightarrow> json list \<Rightarrow> (nat \<times> string) list \<Rightarrow> json list \<times> rng" where
  "pose_points g points [] = (points, g)"
| "pose_points g points ((i, name) # rest) =
     (let (rx, g1) = random_random g;
          (rz, g2) = random_random g1;
          (rc, g3) = random_random g2
      in pose_points g3 (points @ [landmark_point rx rz rc i name]) rest)"

definition detect_pose :: "rng \<Rightarrow> json \<Rightarrow> json result" where
  "detect_pose g data =
     then_res (py_get data ''photos'' (JArr [])) (\<lambda>photos.
     then_res (py_len photos) (\<lambda>n.
     let points = fst (pose_points g [] (enumerate 0 landmark_names));
         landmarks = JObj [(''points'', JArr points), (''averageConfidence'', JNum 0.92)]
     in Inr (JObj [(''landmarks'', landmarks)])))"

subsection \<open>Measurement extraction\<close>

definition measurement_keys :: "string list" where
  "measurement_keys =
     [''height'', ''shoulderWidth'', ''chestCircumference'', ''waistCircumference'',
      ''hipCircumference'', ''armLength'', ''inseam'', ''neckCircumference'',
      ''thighCircumference'']"

text \<open>The dict display \<^verbatim>\<open>base_measurements\<close>: nine draws, in this order.\<close>

definition base_measurements :: "rng \<Rightarrow> json \<Rightarrow> (string \<times> json) list" where
  "base_measurements g unit =
     (let (r1, g1) = random_random g;
          (r2, g2) = random_random g1;
          (r3, g3) = random_random g2;
          (r4, g4) = random_random g3;
          (r5, g5) = random_random g4;
          (r6, g6) = random_random g5;
          (r7, g7) = random_random g6;
          (r8, g8) = random_random g7;
          (r9, g9) = random_random g8
      in [(''height'', JNum (170 + r1 * 20)),
          (''shoulderWidth'', JNum (40 + r2 * 10)),
          (''chestCircumference'', JNum (90 + r3 * 15)),
          (''waistCircumference'', JNum (75 + r4 * 15)),
          (''hipCircumference'', JNum (95 + r5 * 15)),
          (''armLength'', JNum (55 + r6 * 10)),
          (''inseam'', JNum (75 + r7 * 10)),
          (''neckCircumference'', JNum (35 + r8 * 5)),
          (''thighCircumference'', JNum (50 + r9 * 10)),
          (''confidence'', JNum 0.89),
          (''unit'', unit)])"

text \<open>
  The division of the conversion loop. Its operands are doubles, a value the handler has
  just drawn between 35 and 190 and the literal 2.54, so that it cannot raise and no branch
  follows it; the quotient is the exact one, its rounding left out like that of the sums
  and products of the draws.
\<close>

definition truediv_exact :: "json \<Rightarrow> json \<Rightarrow> rat result" where
  "truediv_exact a b =
     (case num_of a of
        None \<Rightarrow> Inl TypeError
      | Some x \<Rightarrow>
          (case num_of b of
             None \<Rightarrow> Inl TypeError
           | Some y \<Rightarrow> if y = 0 then Inl ZeroDivisionError else Inr (x / y)))"

text \<open>The loop \<^verbatim>\<open>for key in [...]: if key in base_measurements:
  base_measurements[key] = base_measurements[key] / 2.54\<close>. An assignment to an existing
  key keeps the key's place in the dict.\<close>

fun to_imperial :: "(string \<times> json) list \<Rightarrow> string list \<Rightarrow> (string \<times> json) list result" where
  "to_imperial bm [] = Inr bm"
| "to_imperial bm (key # keys) =
     (if map_of bm key \<noteq> None
      then then_res (py_getitem (JObj bm) key) (\<lambda>v.
           then_res (truediv_exact v (JNum 2.54)) (\<lambda>q.
           to_imperial (AList.update key (JNum q) bm) keys))
      else to_imperial bm keys)"

definition extract_measurements :: "rng \<Rightarrow> json \<Rightarrow> json result" where
  "extract_measurements g data =
     then_res (py_get data ''landmarks'' JNull) (\<lambda>landmarks.
     then_res (py_get data ''unit'' (JStr ''metric'')) (\<lambda>unit.
     then_res (if unit = JStr ''imperial''
               then to_imperial (base_measurements g unit) measurement_keys
               else Inr (base_measurements g unit)) (\<lambda>bm.
     Inr (JObj [(''measurements'', JObj bm)]))))"

subsection \<open>Body-type classification\<close>

definition classify_body_type :: "json \<Rightarrow> json result" where
  "classify_body_type data =
     then_res (py_get data ''measurements'' JNull) (\<lambda>measurements.
     then_res (py_get measurements ''waistCircumference'' (JInt 80)) (\<lambda>waist.
     then_res (py_get measurements ''hipCircumference'' (JInt 100)) (\<lambda>hip.
     then_res (py_get measurements ''shoulderWidth'' (JInt 45)) (\<lambda>shoulder.
     then_res (py_truediv waist hip) (\<lambda>waist_to_hip_ratio.
     then_res (py_truediv shoulder hip) (\<lambda>shoulder_to_hip_ratio.
     let body_type =
           (if py_lt waist_to_hip_ratio (py_float 0.75) then ''hourglass''
            else if py_gt shoulder_to_hip_ratio (py_float 0.5) then ''inverted-triangle''
            else if py_gt waist_to_hip_ratio (py_float 0.85) then ''rectangle''
            else ''pear'')
     in Inr (JObj [(''bodyType'', JStr body_type), (''confidence'', JNum 0.87)])))))))"

subsection \<open>Notions of the specification\<close>

text \<open>A photo reference as the specification has it: a dict with a string \<open>url\<close> that ends
  in one of the two image extensions, and a \<open>type\<close>.\<close>

fun well_formed_photo :: "json \<Rightarrow> bool" where
  "well_formed_photo (JObj pk) =
     (case map_of pk ''url'' of
        Some (JStr u) \<Rightarrow> (suffix ''.jpg'' u \<or> suffix ''.png'' u) \<and> map_of pk ''type'' \<noteq> None
      | _ \<Rightarrow> False)"
| "well_formed_photo _ = False"

text \<open>The specification's output url: the extension at the end of the url, and only it,
  becomes the masked extension.\<close>

definition suffix_masked :: "string \<Rightarrow> string" where
  "suffix_masked u =
     (if suffix ''.jpg'' u then take (length u - 4) u @ ''_masked.jpg''
      else if suffix ''.png'' u then take (length u - 4) u @ ''_masked.png''
      else u)"

text \<open>The specification's decision procedure for the body type, on the two ratios
  \<open>waist / hip\<close> and \<open>shoulder / hip\<close>, with the thresholds as the decimals 0.75, 0.5 and
  0.85.\<close>

definition spec_body_type :: "json \<Rightarrow> json \<Rightarrow> string" where
  "spec_body_type waist_to_hip shoulder_to_hip =
     (if py_lt waist_to_hip (JNum 0.75) then ''hourglass''
      else if py_gt shoulder_to_hip (JNum 0.5) then ''inverted-triangle''
      else if py_gt waist_to_hip (JNum 0.85) then ''rectangle''
      else ''pear'')"

text \<open>A measurement as the classification reads it: the value under the key, or the
  fallback when the key is absent.\<close>

definition measurement :: "(string \<times> json) list \<Rightarrow> string \<Rightarrow> int \<Rightarrow> json" where
  "measurement ms k fallback = (case map_of ms k of None \<Rightarrow> JInt fallback | Some v \<Rightarrow> v)"

text \<open>The request of the specification's test vectors.\<close>

definition measurements_request :: "int \<Rightarrow> int \<Rightarrow> int \<Rightarrow> json" where
  "measurements_request waist hip shoulder =
     JObj [(''measurements'',
            JObj [(''waistCircumference'', JInt waist),
                  (''hipCircumference'', JInt hip),
                  (''shoulderWidth'', JInt shoulder)])]"

text \<open>The average of the per-point confidences of a list of landmark points: what an
  averaged \<open>averageConfidence\<close> would be.\<close>

fun confidence_of :: "json \<Rightarrow> rat" where
  "confidence_of (JObj kvs) = (case map_of kvs ''confidence'' of Some (JNum c) \<Rightarrow> c | _ \<Rightarrow> 0)"
| "confidence_of _ = 0"

definition mean_confidence :: "json list \<Rightarrow> rat" where
  "mean_confidence points = sum_list (map confidence_of points) / of_nat (length points)"

text \<open>A client-error status.\<close>

definition client_error :: "nat \<Rightarrow> bool" where
  "client_error status \<longleftrightarrow> 400 \<le> status \<and> status < 500"

text \<open>A measurement object with numeric values: every value is an \<^verbatim>\<open>int\<close>, a
  \<^verbatim>\<open>bool\<close> or a float.\<close>

definition numeric_measurements :: "(string \<times> json) list \<Rightarrow> bool" where
  "numeric_measurements ms = list_all (\<lambda>kv. is_number (snd kv)) ms"

text \<open>An \<^verbatim>\<open>int\<close> within the range of doubles: its magnitude is below the least one
  that rounds beyond the largest double. A float is within the range as it is.\<close>

definition fits_double :: "json \<Rightarrow> bool" where
  "fits_double v = (case int_of v of None \<Rightarrow> True | Some i \<Rightarrow> \<bar>of_int i\<bar> < double_overflow)"

definition integers_fit_double :: "(string \<times> json) list \<Rightarrow> bool" where
  "integers_fit_double ms = list_all (\<lambda>kv. fits_double (snd kv)) ms"

section \<open>Properties\<close>

declare replace.simps [simp del]

declare bit_length.simps [simp del]

subsection \<open>String replacement\<close>

text \<open>
  When the first character of \<open>t\<close> does not occur in \<open>old\<close> after its first character, no
  occurrence of \<open>old\<close> can start in \<open>s\<close> and end in \<open>t\<close>, so the replacement works on the
  two parts separately.
\<close>


lemma replace_append:
  assumes "old \<noteq> []" and "t \<noteq> []" and "hd t \<notin> set (tl old)"
  shows "replace (s @ t) old new = replace s old new @ replace t old new"
  using assms
proof (induction s old new rule: replace.induct)
  case (1 old new)
  then show ?case by (simp add: replace.simps)
next
  case (2 c cs old new)
  show ?case
  proof (cases "prefix old (c # cs)")
    case True
    then have len: "length old \<le> length (c # cs)"
      by (rule prefix_length_le)
    from True have p: "prefix old ((c # cs) @ t)"
      by (metis prefix_prefix)
    from len have d: "drop (length old) ((c # cs) @ t) = drop (length old) (c # cs) @ t"
      using drop_append[of "length old" "c # cs" t] by simp
    have "replace ((c # cs) @ t) old new = new @ replace (drop (length old) ((c # cs) @ t)) old new"
      using p "2.prems"(1) by (simp add: replace.simps)
    also have "\<dots> = new @ replace (drop (length old) (c # cs)) old new @ replace t old new"
      using "2.IH"(2)[OF "2.prems"(1) True "2.prems"] d by simp
    also have "\<dots> = replace (c # cs) old new @ replace t old new"
      using True "2.prems"(1) by (simp add: replace.simps)
    finally show ?thesis .
  next
    case False
    have np: "\<not> prefix old ((c # cs) @ t)"
    proof
      assume "prefix old ((c # cs) @ t)"
      then obtain us where us: "old = (c # cs) @ us" "prefix us t"
        using False prefix_append[of old "c # cs" t] by blast
      from us(1) False have "us \<noteq> []" by auto
      with us(2) have "hd us = hd t"
        by (cases us; cases t) auto
      moreover from us(1) \<open>us \<noteq> []\<close> have "hd us \<in> set (tl old)"
        by (cases us) auto
      ultimately show False using "2.prems"(3) by simp
    qed
    have "replace ((c # cs) @ t) old new = c # replace (cs @ t) old new"
      using np "2.prems"(1) by (simp add: replace.simps)
    also have "\<dots> = c # replace cs old new @ replace t old new"
      using "2.IH"(3)[OF "2.prems"(1) False "2.prems"] by simp
    also have "\<dots> = replace (c # cs) old new @ replace t old new"
      using False "2.prems"(1) by (simp add: replace.simps)
    finally show ?thesis .
  qed
qed

lemma replace_absent:
  assumes "old \<noteq> []" and "\<not> sublist old s"
  shows "replace s old new = s"
  using assms
proof (induction s)
  case Nil
  then show ?case by (simp add: replace.simps)
next
  case (Cons c cs)
  from Cons.prems(2) have np: "\<not> prefix old (c # cs)"
    using prefix_imp_sublist by blast
  from Cons.prems(2) have "\<not> sublist old cs"
    by (meson sublist_Cons_right)
  with Cons.IH Cons.prems(1) have "replace cs old new = cs" by simp
  with np Cons.prems(1) show ?case by (simp add: replace.simps)
qed

lemma replace_jpg_jpg: "replace ''.jpg'' ''.jpg'' ''_masked.jpg'' = ''_masked.jpg''"
  by (simp add: replace.simps)
lemma replace_jpg_png: "replace ''.png'' ''.jpg'' ''_masked.jpg'' = ''.png''"
  by (simp add: replace.simps)
lemma replace_png_png: "replace ''.png'' ''.png'' ''_masked.png'' = ''_masked.png''"
  by (simp add: replace.simps)
lemma replace_png_masked_jpg: "replace ''_masked.jpg'' ''.png'' ''_masked.png'' = ''_masked.jpg''"
  by (simp add: replace.simps)

subsection \<open>Background removal\<close>

lemma masked_jpg:
  "replace (replace (b @ ''.jpg'') ''.jpg'' ''_masked.jpg'') ''.png'' ''_masked.png'' =
   replace (replace b ''.jpg'' ''_masked.jpg'') ''.png'' ''_masked.png'' @ ''_masked.jpg''"
proof -
  have "replace (b @ ''.jpg'') ''.jpg'' ''_masked.jpg'' = replace b ''.jpg'' ''_masked.jpg'' @ ''_masked.jpg''"
    by (simp add: replace_append replace_jpg_jpg)
  then show ?thesis
    by (simp add: replace_append replace_png_masked_jpg)
qed

lemma masked_png:
  "replace (replace (b @ ''.png'') ''.jpg'' ''_masked.jpg'') ''.png'' ''_masked.png'' =
   replace (replace b ''.jpg'' ''_masked.jpg'') ''.png'' ''_masked.png'' @ ''_masked.png''"
proof -
  have "replace (b @ ''.png'') ''.jpg'' ''_masked.jpg'' = replace b ''.jpg'' ''_masked.jpg'' @ ''.png''"
    by (simp add: replace_append replace_jpg_png)
  then show ?thesis
    by (simp add: replace_append replace_png_png)
qed

lemma masked_plain:
  assumes "\<not> sublist ''.jpg'' b" and "\<not> sublist ''.png'' b"
  shows "replace (replace b ''.jpg'' ''_masked.jpg'') ''.png'' ''_masked.png'' = b"
  using assms by (simp add: replace_absent)

lemma masked_url_suffix:
  fixes u :: string
  assumes ext: "suffix ''.jpg'' u \<or> suffix ''.png'' u"
    and nj: "\<not> sublist ''.jpg'' (take (length u - 4) u)"
    and np: "\<not> sublist ''.png'' (take (length u - 4) u)"
  shows "replace (replace u ''.jpg'' ''_masked.jpg'') ''.png'' ''_masked.png'' = suffix_masked u"
proof -
  let ?b = "take (length u - 4) u"
  have plain: "replace (replace ?b ''.jpg'' ''_masked.jpg'') ''.png'' ''_masked.png'' = ?b"
    using nj np by (rule masked_plain)
  show ?thesis
  proof (cases "suffix ''.jpg'' u")
    case True
    then have u: "u = ?b @ ''.jpg''" by (auto simp: suffix_def)
    have "replace (replace (?b @ ''.jpg'') ''.jpg'' ''_masked.jpg'') ''.png'' ''_masked.png''
          = ?b @ ''_masked.jpg''"
      by (simp only: masked_jpg plain)
    with u have "replace (replace u ''.jpg'' ''_masked.jpg'') ''.png'' ''_masked.png''
          = ?b @ ''_masked.jpg''" by simp
    with True show ?thesis by (simp add: suffix_masked_def)
  next
    case False
    with ext have png: "suffix ''.png'' u" by simp
    then have u: "u = ?b @ ''.png''" by (auto simp: suffix_def)
    have "replace (replace (?b @ ''.png'') ''.jpg'' ''_masked.jpg'') ''.png'' ''_masked.png''
          = ?b @ ''_masked.png''"
      by (simp only: masked_png plain)
    with u have "replace (replace u ''.jpg'' ''_masked.jpg'') ''.png'' ''_masked.png''
          = ?b @ ''_masked.png''" by simp
    with False png show ?thesis by (simp add: suffix_masked_def)
  qed
qed

lemma masked_url_ends_jpg:
  "suffix ''.jpg'' u \<Longrightarrow>
   suffix ''_masked.jpg'' (replace (replace u ''.jpg'' ''_masked.jpg'') ''.png'' ''_masked.png'')"
  by (auto simp: suffix_def masked_jpg)

lemma masked_url_ends_png:
  "suffix ''.png'' u \<Longrightarrow>
   suffix ''_masked.png'' (replace (replace u ''.jpg'' ''_masked.jpg'') ''.png'' ''_masked.png'')"
  by (auto simp: suffix_def masked_png)

lemma masked_photo_well_formed:
  assumes "well_formed_photo p"
  shows "\<exists>pk u t. p = JObj pk \<and> map_of pk ''url'' = Some (JStr u) \<and> map_of pk ''type'' = Some t
           \<and> (suffix ''.jpg'' u \<or> suffix ''.png'' u)
           \<and> masked_photo p =
               Inr (JObj [(''url'', JStr (replace (replace u ''.jpg'' ''_masked.jpg'') ''.png'' ''_masked.png'')),
                          (''type'', t), (''maskQuality'', JNum 0.95)])"
proof (cases p)
  case (JObj pk)
  with assms obtain u where u: "map_of pk ''url'' = Some (JStr u)"
      "suffix ''.jpg'' u \<or> suffix ''.png'' u" "map_of pk ''type'' \<noteq> None"
    by (auto split: option.splits json.splits)
  then obtain t where t: "map_of pk ''type'' = Some t" by auto
  have "masked_photo p =
               Inr (JObj [(''url'', JStr (replace (replace u ''.jpg'' ''_masked.jpg'') ''.png'' ''_masked.png'')),
                          (''type'', t), (''maskQuality'', JNum 0.95)])"
    using JObj u(1) t by (simp add: masked_photo_def then_res_def)
  with JObj u t show ?thesis by blast
qed (use assms in simp_all)

lemma process_photos_all:
  assumes "list_all (\<lambda>p. \<exists>q. masked_photo p = Inr q) photos"
  shows "\<exists>out. process_photos acc photos = Inr (acc @ out)
           \<and> list_all2 (\<lambda>p q. masked_photo p = Inr q) photos out"
  using assms
proof (induction photos arbitrary: acc)
  case Nil
  then show ?case by simp
next
  case (Cons p photos)
  then obtain q where q: "masked_photo p = Inr q" by auto
  from Cons obtain out where out: "process_photos (acc @ [q]) photos = Inr ((acc @ [q]) @ out)"
      "list_all2 (\<lambda>p q. masked_photo p = Inr q) photos out"
    by fastforce
  have "process_photos acc (p # photos) = Inr (acc @ (q # out))"
    using q out(1) by (simp add: then_res_def)
  moreover have "list_all2 (\<lambda>p q. masked_photo p = Inr q) (p # photos) (q # out)"
    using q out(2) by simp
  ultimately show ?case by blast
qed

lemma remove_background_list:
  assumes photos: "map_of kvs ''photos'' = Some (JArr photos)"
    and wf: "list_all well_formed_photo photos"
  shows "\<exists>out. remove_background (JObj kvs) = Inr (JObj [(''processedPhotos'', JArr out)])
           \<and> list_all2 (\<lambda>p q. masked_photo p = Inr q) photos out"
proof -
  have "list_all (\<lambda>p. \<exists>q. masked_photo p = Inr q) photos"
    using wf masked_photo_well_formed by (fastforce simp: list_all_iff)
  from process_photos_all[OF this, of "[]"] obtain out where
    out: "process_photos [] photos = Inr out" "list_all2 (\<lambda>p q. masked_photo p = Inr q) photos out"
    by auto
  have "remove_background (JObj kvs) = Inr (JObj [(''processedPhotos'', JArr out)])"
    using photos out(1) by (simp add: remove_background_def then_res_def)
  with out(2) show ?thesis by blast
qed


text \<open>
  C2, as amended. For a request whose \<open>photos\<close> is a list of well-formed photos, background
  removal returns a list of the same length and in the same order. The \<open>i\<close>-th record keeps
  the \<open>type\<close> of the \<open>i\<close>-th photo, has \<open>maskQuality\<close> 0.95, and its \<open>url\<close> is the photo's url
  with every occurrence of \<open>.jpg\<close> replaced by \<open>_masked.jpg\<close> and then every occurrence of
  \<open>.png\<close> replaced by \<open>_masked.png\<close>. That url ends in \<open>_masked.jpg\<close> when the input ends in
  \<open>.jpg\<close> and in \<open>_masked.png\<close> when the input ends in \<open>.png\<close>, and it is the input url with
  only the extension at the end replaced whenever neither extension occurs in the url
  before its last four characters.
\<close>

theorem remove_background_masked_urls:
  assumes photos: "map_of kvs ''photos'' = Some (JArr photos)"
    and wf: "list_all well_formed_photo photos"
  shows "\<exists>out. remove_background (JObj kvs) = Inr (JObj [(''processedPhotos'', JArr out)])
           \<and> length out = length photos
           \<and> (\<forall>i<length photos. \<exists>pk u t u'.
                 photos ! i = JObj pk \<and> map_of pk ''url'' = Some (JStr u) \<and> map_of pk ''type'' = Some t
               \<and> out ! i = JObj [(''url'', JStr u'), (''type'', t), (''maskQuality'', JNum 0.95)]
               \<and> u' = replace (replace u ''.jpg'' ''_masked.jpg'') ''.png'' ''_masked.png''
               \<and> (suffix ''.jpg'' u \<longrightarrow> suffix ''_masked.jpg'' u')
               \<and> (suffix ''.png'' u \<longrightarrow> suffix ''_masked.png'' u')
               \<and> (\<not> sublist ''.jpg'' (take (length u - 4) u)
                    \<and> \<not> sublist ''.png'' (take (length u - 4) u) \<longrightarrow> u' = suffix_masked u))"
proof -
  from remove_background_list[OF photos wf] obtain out where
    res: "remove_background (JObj kvs) = Inr (JObj [(''processedPhotos'', JArr out)])"
    and rel: "list_all2 (\<lambda>p q. masked_photo p = Inr q) photos out"
    by blast
  have len: "length out = length photos"
    using rel by (simp add: list_all2_lengthD)
  have each: "\<exists>pk u t u'.
                 photos ! i = JObj pk \<and> map_of pk ''url'' = Some (JStr u) \<and> map_of pk ''type'' = Some t
               \<and> out ! i = JObj [(''url'', JStr u'), (''type'', t), (''maskQuality'', JNum 0.95)]
               \<and> u' = replace (replace u ''.jpg'' ''_masked.jpg'') ''.png'' ''_masked.png''
               \<and> (suffix ''.jpg'' u \<longrightarrow> suffix ''_masked.jpg'' u')
               \<and> (suffix ''.png'' u \<longrightarrow> suffix ''_masked.png'' u')
               \<and> (\<not> sublist ''.jpg'' (take (length u - 4) u)
                    \<and> \<not> sublist ''.png'' (take (length u - 4) u) \<longrightarrow> u' = suffix_masked u)"
    if i: "i < length photos" for i
  proof -
    from wf i have "well_formed_photo (photos ! i)"
      by (simp add: list_all_length)
    from masked_photo_well_formed[OF this] obtain pk u t where
      p: "photos ! i = JObj pk" "map_of pk ''url'' = Some (JStr u)" "map_of pk ''type'' = Some t"
        "suffix ''.jpg'' u \<or> suffix ''.png'' u"
        "masked_photo (photos ! i) =
               Inr (JObj [(''url'', JStr (replace (replace u ''.jpg'' ''_masked.jpg'') ''.png'' ''_masked.png'')),
                          (''type'', t), (''maskQuality'', JNum 0.95)])"
      by blast
    from rel i have "masked_photo (photos ! i) = Inr (out ! i)"
      using list_all2_nthD[of "\<lambda>p q. masked_photo p = Inr q" photos out i] by simp
    with p(5) have o: "out ! i = JObj [(''url'', JStr (replace (replace u ''.jpg'' ''_masked.jpg'') ''.png'' ''_masked.png'')),
                          (''type'', t), (''maskQuality'', JNum 0.95)]"
      by simp
    from p(1-3) o masked_url_ends_jpg[of u] masked_url_ends_png[of u] masked_url_suffix[OF p(4)]
    show ?thesis by blast
  qed
  from res len each show ?thesis by blast
qed

text \<open>The theorem at a request with one \<open>.jpg\<close> and one \<open>.png\<close> photo.\<close>

theorem remove_background_masked_urls_witness:
  "map_of [(''photos'', JArr [JObj [(''url'', JStr ''front.jpg''), (''type'', JStr ''front'')],
                              JObj [(''type'', JStr ''side''), (''url'', JStr ''img/side.png'')]])]
      ''photos''
     = Some (JArr [JObj [(''url'', JStr ''front.jpg''), (''type'', JStr ''front'')],
                   JObj [(''type'', JStr ''side''), (''url'', JStr ''img/side.png'')]])
   \<and> list_all well_formed_photo
         [JObj [(''url'', JStr ''front.jpg''), (''type'', JStr ''front'')],
          JObj [(''type'', JStr ''side''), (''url'', JStr ''img/side.png'')]]
   \<and> remove_background
         (JObj [(''photos'', JArr [JObj [(''url'', JStr ''front.jpg''), (''type'', JStr ''front'')],
                                   JObj [(''type'', JStr ''side''), (''url'', JStr ''img/side.png'')]])])
     = Inr (JObj [(''processedPhotos'',
              JArr [JObj [(''url'', JStr ''front_masked.jpg''), (''type'', JStr ''front''),
                          (''maskQuality'', JNum 0.95)],
                    JObj [(''url'', JStr ''img/side_masked.png''), (''type'', JStr ''side''),
                          (''maskQuality'', JNum 0.95)]])])"
  using remove_background_masked_urls
    [of "[(''photos'', JArr [JObj [(''url'', JStr ''front.jpg''), (''type'', JStr ''front'')],
                              JObj [(''type'', JStr ''side''), (''url'', JStr ''img/side.png'')]])]"
        "[JObj [(''url'', JStr ''front.jpg''), (''type'', JStr ''front'')],
          JObj [(''type'', JStr ''side''), (''url'', JStr ''img/side.png'')]]"]
  by (simp add: remove_background_def then_res_def masked_photo_def replace.simps suffix_def)

text \<open>
  C2, as stated, fails: the url \<open>a.jpg.png\<close> ends in \<open>.png\<close>, the photo is well formed, and
  the record's url is \<open>a_masked.jpg_masked.png\<close>, where replacing the extension at the end
  gives \<open>a.jpg_masked.png\<close>.
\<close>

theorem remove_background_suffix_counterexample:
  "well_formed_photo (JObj [(''url'', JStr ''a.jpg.png''), (''type'', JStr ''front'')])
   \<and> remove_background
        (JObj [(''photos'', JArr [JObj [(''url'', JStr ''a.jpg.png''), (''type'', JStr ''front'')]])])
     = Inr (JObj [(''processedPhotos'',
              JArr [JObj [(''url'', JStr ''a_masked.jpg_masked.png''), (''type'', JStr ''front''),
                          (''maskQuality'', JNum 0.95)]])])
   \<and> suffix_masked ''a.jpg.png'' = ''a.jpg_masked.png''
   \<and> ''a_masked.jpg_masked.png'' \<noteq> suffix_masked ''a.jpg.png''"
  by (simp add: remove_background_def then_res_def masked_photo_def replace.simps
      suffix_masked_def suffix_def)

subsection \<open>Pose detection\<close>

lemma pose_points_closed:
  "fst (pose_points g acc ens) =
     acc @ map (\<lambda>k. landmark_point (g (3 * k)) (g (3 * k + 1)) (g (3 * k + 2))
                       (fst (ens ! k)) (snd (ens ! k))) [0..<length ens]"
proof (induction ens arbitrary: g acc)
  case Nil
  then show ?case by simp
next
  case (Cons e ens)
  obtain i name where e: "e = (i, name)" by (cases e)
  let ?g3 = "\<lambda>k. g (Suc (Suc (Suc k)))"
  have step: "pose_points g acc (e # ens) =
        pose_points ?g3 (acc @ [landmark_point (g 0) (g 1) (g 2) i name]) ens"
    by (simp add: e random_random_def numeral_2_eq_2)
  have upt: "[0..<length (e # ens)] = 0 # map Suc [0..<length ens]"
    by (simp add: upt_conv_Cons map_Suc_upt del: upt_Suc)
  show ?case
    unfolding step Cons.IH upt
    by (simp add: e comp_def numeral_2_eq_2 numeral_3_eq_3)
qed

lemma length_landmark_names: "length landmark_names = 33"
  by (simp add: landmark_names_def)

lemma detect_pose_points:
  assumes "py_get data ''photos'' (JArr []) = Inr photos" and "py_len photos = Inr n"
  shows "detect_pose g data =
     Inr (JObj [(''landmarks'',
           JObj [(''points'',
                  JArr (map (\<lambda>k. landmark_point (g (3 * k)) (g (3 * k + 1)) (g (3 * k + 2)) k
                                     (landmark_names ! k)) [0..<33])),
                 (''averageConfidence'', JNum 0.92)])])"
proof -
  have "map (\<lambda>k. landmark_point (g (3 * k)) (g (3 * k + 1)) (g (3 * k + 2))
                       (fst (enumerate 0 landmark_names ! k)) (snd (enumerate 0 landmark_names ! k))) [0..<33]
      = map (\<lambda>k. landmark_point (g (3 * k)) (g (3 * k + 1)) (g (3 * k + 2)) k
                                     (landmark_names ! k)) [0..<33]"
    by (rule map_cong) (simp_all add: nth_enumerate_eq length_landmark_names)
  then show ?thesis
    using assms
    by (simp add: detect_pose_def then_res_def pose_points_closed length_landmark_names)
qed

lemma landmark_ranges:
  fixes rx rz rc :: rat
  assumes "0 \<le> rx" "rx < 1" "0 \<le> rz" "rz < 1" "0 \<le> rc" "rc < 1"
  shows "0.3 \<le> 0.3 + rx * 0.4" "0.3 + rx * 0.4 \<le> 0.7"
        "- 0.05 \<le> rz * 0.1 - 0.05" "rz * 0.1 - 0.05 \<le> 0.05"
        "0.85 \<le> 0.85 + rc * 0.1" "0.85 + rc * 0.1 \<le> 0.95"
  using assms by simp_all

lemma y_increasing:
  "i < j \<Longrightarrow> (of_nat i / 33) * 0.9 + 0.05 < ((of_nat j / 33) * 0.9 + 0.05 :: rat)"
  by (simp add: divide_strict_right_mono)


text \<open>
  C4. For every request whose \<open>photos\<close> is a list, of any length and content, or is absent,
  and every valid generator, pose detection returns exactly 33 points. The \<open>i\<close>-th point
  carries the \<open>i\<close>-th landmark name, its \<open>y\<close> is \<open>(i/33) * 0.9 + 0.05\<close> and is greater than the
  \<open>y\<close> of every earlier point, its \<open>x\<close> lies between 0.3 and 0.7, its \<open>z\<close> between -0.05 and
  0.05 and its \<open>confidence\<close> between 0.85 and 0.95.
\<close>

theorem detect_pose_landmarks:
  assumes rng: "valid_rng g"
    and request: "map_of kvs ''photos'' = None \<or> map_of kvs ''photos'' = Some (JArr photos)"
  shows "\<exists>points. detect_pose g (JObj kvs) =
            Inr (JObj [(''landmarks'',
                   JObj [(''points'', JArr points), (''averageConfidence'', JNum 0.92)])])
          \<and> length points = 33
          \<and> (\<forall>i<33. \<exists>x y z c.
                 points ! i = JObj [(''x'', JNum x), (''y'', JNum y), (''z'', JNum z),
                                    (''confidence'', JNum c), (''name'', JStr (landmark_names ! i))]
               \<and> y = (of_nat i / 33) * 0.9 + 0.05
               \<and> 0.3 \<le> x \<and> x \<le> 0.7 \<and> - 0.05 \<le> z \<and> z \<le> 0.05 \<and> 0.85 \<le> c \<and> c \<le> 0.95
               \<and> (\<forall>j<i. \<exists>kvs y'. points ! j = JObj kvs \<and> map_of kvs ''y'' = Some (JNum y') \<and> y' < y))"
proof -
  let ?pt = "\<lambda>k. landmark_point (g (3 * k)) (g (3 * k + 1)) (g (3 * k + 2)) k (landmark_names ! k)"
  let ?points = "map ?pt [0..<33]"
  from request obtain ps where "py_get (JObj kvs) ''photos'' (JArr []) = Inr (JArr ps)"
    by auto
  moreover have "py_len (JArr ps) = Inr (length ps)" by simp
  ultimately have res: "detect_pose g (JObj kvs) =
            Inr (JObj [(''landmarks'',
                   JObj [(''points'', JArr ?points), (''averageConfidence'', JNum 0.92)])])"
    by (rule detect_pose_points)
  have len: "length ?points = 33" by simp
  have nth: "?points ! i = ?pt i" if "i < 33" for i
    using that by (simp del: upt_Suc)
  have each: "\<exists>x y z c.
                 ?points ! i = JObj [(''x'', JNum x), (''y'', JNum y), (''z'', JNum z),
                                    (''confidence'', JNum c), (''name'', JStr (landmark_names ! i))]
               \<and> y = (of_nat i / 33) * 0.9 + 0.05
               \<and> 0.3 \<le> x \<and> x \<le> 0.7 \<and> - 0.05 \<le> z \<and> z \<le> 0.05 \<and> 0.85 \<le> c \<and> c \<le> 0.95
               \<and> (\<forall>j<i. \<exists>kvs y'. ?points ! j = JObj kvs \<and> map_of kvs ''y'' = Some (JNum y') \<and> y' < y)"
    if i: "i < 33" for i
  proof -
    from rng have r: "0 \<le> g (3 * i)" "g (3 * i) < 1" "0 \<le> g (3 * i + 1)" "g (3 * i + 1) < 1"
        "0 \<le> g (3 * i + 2)" "g (3 * i + 2) < 1"
      by (simp_all add: valid_rng_def)
    have below: "\<exists>kvs y'. ?points ! j = JObj kvs \<and> map_of kvs ''y'' = Some (JNum y')
                    \<and> y' < (of_nat i / 33) * 0.9 + 0.05" if j: "j < i" for j
    proof -
      from j i have "j < 33" by simp
      then have "?points ! j = ?pt j" by (rule nth)
      then have "?points ! j = JObj [(''x'', JNum (0.3 + g (3 * j) * 0.4)),
           (''y'', JNum ((of_nat j / 33) * 0.9 + 0.05)),
           (''z'', JNum (g (3 * j + 1) * 0.1 - 0.05)),
           (''confidence'', JNum (0.85 + g (3 * j + 2) * 0.1)),
           (''name'', JStr (landmark_names ! j))]"
        by (simp only: landmark_point_def)
      moreover have "map_of [(''x'', JNum (0.3 + g (3 * j) * 0.4)),
           (''y'', JNum ((of_nat j / 33) * 0.9 + 0.05)),
           (''z'', JNum (g (3 * j + 1) * 0.1 - 0.05)),
           (''confidence'', JNum (0.85 + g (3 * j + 2) * 0.1)),
           (''name'', JStr (landmark_names ! j))] ''y'' = Some (JNum ((of_nat j / 33) * 0.9 + 0.05))"
        by simp
      ultimately show ?thesis using y_increasing[OF j] by blast
    qed
    have "?points ! i = JObj [(''x'', JNum (0.3 + g (3 * i) * 0.4)),
           (''y'', JNum ((of_nat i / 33) * 0.9 + 0.05)),
           (''z'', JNum (g (3 * i + 1) * 0.1 - 0.05)),
           (''confidence'', JNum (0.85 + g (3 * i + 2) * 0.1)),
           (''name'', JStr (landmark_names ! i))]"
      using nth[OF i] by (simp only: landmark_point_def)
    with landmark_ranges[OF r] below show ?thesis by blast
  qed
  from res len each show ?thesis by blast
qed

text \<open>The theorem at the generator that always draws one half and an empty photo list.\<close>

theorem detect_pose_landmarks_witness:
  "valid_rng (\<lambda>k. 1 / 2)
   \<and> map_of [(''photos'', JArr [])] ''photos'' = Some (JArr [])
   \<and> (\<exists>points. detect_pose (\<lambda>k. 1 / 2) (JObj [(''photos'', JArr [])]) =
            Inr (JObj [(''landmarks'',
                   JObj [(''points'', JArr points), (''averageConfidence'', JNum 0.92)])])
          \<and> length points = 33)"
proof -
  have g: "valid_rng (\<lambda>k. 1 / 2)"
    by (simp add: valid_rng_def)
  have r: "map_of [(''photos'', JArr [])] ''photos'' = Some (JArr [])"
    by simp
  then have "map_of [(''photos'', JArr [])] ''photos'' = None
      \<or> map_of [(''photos'', JArr [])] ''photos'' = Some (JArr [])"
    by (rule disjI2)
  from detect_pose_landmarks[OF g this] g r show ?thesis
    by blast
qed

subsection \<open>Rounding to doubles\<close>

text \<open>
  The binade brackets its argument, and is the only exponent that does. A rounded value
  lies in the closed binade of its argument, so that a number of magnitude at least 1
  never rounds to zero, and no double lies above the double nearest to 0.85 and at most
  0.85: for the result of a division, being greater than the float literal \<^verbatim>\<open>0.85\<close> and
  being greater than the decimal 0.85 are the same.
\<close>

lemma bit_length_bounds:
  "0 < n \<Longrightarrow> 2 ^ (bit_length n - 1) \<le> n \<and> n < 2 ^ bit_length n"
proof (induction n rule: bit_length.induct)
  case (1 n)
  show ?case
  proof (cases "n div 2 = 0")
    case True
    with "1.prems" have "n = 1" by (simp add: div_eq_0_iff) 
    then show ?thesis by (simp add: bit_length.simps)
  next
    case False
    then have pos: "0 < n div 2" by simp
    from "1.prems" have n: "n \<noteq> 0" by simp
    from "1.IH"[OF n pos] have
      lo: "2 ^ (bit_length (n div 2) - 1) \<le> n div 2" and hi: "n div 2 < 2 ^ bit_length (n div 2)"
      by simp_all
    have bl: "bit_length n = Suc (bit_length (n div 2))"
      using n by (subst bit_length.simps) simp
    have blpos: "0 < bit_length (n div 2)"
      using pos by (subst bit_length.simps) simp
    then have "(2::nat) ^ bit_length (n div 2) = 2 * 2 ^ (bit_length (n div 2) - 1)"
      by (cases "bit_length (n div 2)") simp_all
    with lo have "2 ^ bit_length (n div 2) \<le> 2 * (n div 2)" by simp
    also have "\<dots> \<le> n" by simp
    finally have a: "2 ^ (bit_length n - 1) \<le> n" by (simp add: bl)
    from hi have "n div 2 + 1 \<le> 2 ^ bit_length (n div 2)" by simp
    then have "2 * (n div 2) + 2 \<le> 2 * 2 ^ bit_length (n div 2)" by simp
    moreover have "n < 2 * (n div 2) + 2" by presburger
    ultimately have "n < 2 ^ bit_length n" by (simp add: bl)
    with a show ?thesis by simp
  qed
qed

lemma binade_bounds:
  assumes "0 < q"
  shows "2 powi binade q \<le> q" and "q < 2 powi (binade q + 1)"
proof -
  have "2 powi binade q \<le> q \<and> q < 2 powi (binade q + 1)"
  proof (cases "1 \<le> q")
    case True
    define n where "n = nat \<lfloor>q\<rfloor>"
    from True have fl: "1 \<le> \<lfloor>q\<rfloor>" by simp
    then have npos: "0 < n" by (simp add: n_def)
    have b: "binade q = int (bit_length n) - 1"
      using True by (simp add: binade_def n_def)
    from bit_length_bounds[OF npos] have lo: "2 ^ (bit_length n - 1) \<le> n" and hi: "n < 2 ^ bit_length n"
      by simp_all
    have blpos: "0 < bit_length n"
      using npos by (subst bit_length.simps) simp
    have nq: "rat_of_nat n \<le> q"
      using fl by (simp add: n_def)
    have "2 powi binade q = (2::rat) ^ (bit_length n - 1)"
      using blpos by (simp add: b power_int_def)
    also have "\<dots> = rat_of_nat (2 ^ (bit_length n - 1))" by simp
    also have "\<dots> \<le> rat_of_nat n" using lo by (simp only: of_nat_le_iff)
    finally have a: "2 powi binade q \<le> q" using nq by simp
    have "q < of_int \<lfloor>q\<rfloor> + 1" by linarith
    also have "of_int \<lfloor>q\<rfloor> + 1 = rat_of_nat (n + 1)" using fl by (simp add: n_def)
    also have "\<dots> \<le> rat_of_nat (2 ^ bit_length n)" using hi by (simp only: of_nat_le_iff)
    also have "\<dots> = 2 powi (binade q + 1)" by (simp add: b)
    finally show ?thesis using a by simp
  next
    case False
    define m where "m = \<lceil>1 / q\<rceil>"
    define k where "k = bit_length (nat (m - 1))"
    from False assms have inv: "1 < 1 / q" by simp
    then have m2: "2 \<le> m" unfolding m_def by (simp add: le_ceiling_iff) 
    then have mpos: "0 < nat (m - 1)" by simp
    have b: "binade q = - int k"
      using False by (simp add: binade_def m_def k_def)
    from bit_length_bounds[OF mpos] have lo: "2 ^ (k - 1) \<le> nat (m - 1)" and hi: "nat (m - 1) < 2 ^ k"
      by (simp_all add: k_def)
    have kpos: "0 < k"
      unfolding k_def using mpos by (subst bit_length.simps) simp
    from hi m2 have "m \<le> 2 ^ k" by (simp add: nat_less_iff) 
    then have mk: "rat_of_int m \<le> 2 ^ k" by (metis of_int_le_iff of_int_numeral of_int_power)
    have "1 / q \<le> rat_of_int m" unfolding m_def by simp
    from this mk have "1 / q \<le> 2 ^ k" by (rule order_trans)
    with assms have "1 / 2 ^ k \<le> q" by (simp add: field_simps)
    then have a: "2 powi binade q \<le> q"
      by (simp add: b power_int_minus_divide)
    from lo m2 have "2 ^ (k - 1) \<le> m - 1" by (simp add: le_nat_iff) 
    then have "(2::rat) ^ (k - 1) \<le> rat_of_int (m - 1)" by (metis of_int_le_iff of_int_numeral of_int_power)
    moreover have "rat_of_int (m - 1) < 1 / q" unfolding m_def by linarith
    ultimately have "(2::rat) ^ (k - 1) < 1 / q" by (rule le_less_trans)
    with assms have "q < 1 / 2 ^ (k - 1)" by (simp add: field_simps)
    moreover have "2 powi (binade q + 1) = (1::rat) / 2 ^ (k - 1)"
    proof -
      from kpos have "binade q + 1 = - int (k - 1)" by (simp add: b)
      then show ?thesis by (simp only: power_int_minus_divide power_int_of_nat)
    qed
    ultimately show ?thesis using a by simp
  qed
  then show "2 powi binade q \<le> q" and "q < 2 powi (binade q + 1)" by simp_all
qed


lemma power2_int_less_cancel:
  assumes "(2::rat) powi a < 2 powi b"
  shows "a < b"
proof (rule ccontr)
  assume "\<not> a < b"
  then have "b \<le> a" by simp
  then have "(2::rat) powi b \<le> 2 powi a" by (intro power_int_increasing) simp_all
  with assms show False by simp
qed

lemma binade_unique:
  assumes "0 < q" and "2 powi e \<le> q" and "q < 2 powi (e + 1)"
  shows "binade q = e"
proof -
  from binade_bounds[OF assms(1)] have b: "2 powi binade q \<le> q" "q < 2 powi (binade q + 1)" .
  from b(1) assms(3) have "(2::rat) powi binade q < 2 powi (e + 1)" by (rule le_less_trans)
  then have "binade q < e + 1" by (rule power2_int_less_cancel)
  moreover from assms(2) b(2) have "(2::rat) powi e < 2 powi (binade q + 1)" by (rule le_less_trans)
  then have "e < binade q + 1" by (rule power2_int_less_cancel)
  ultimately show ?thesis by simp
qed

lemma round_half_even_near:
  assumes "\<bar>x - of_int n\<bar> < 1 / 2"
  shows "round_half_even x = n"
proof (cases "of_int n \<le> x")
  case True
  with assms have "\<lfloor>x\<rfloor> = n" by (intro floor_unique) (simp_all add: abs_if split: if_splits)
  moreover from this assms True have "x - of_int \<lfloor>x\<rfloor> < 1 / 2" by simp
  ultimately show ?thesis by (simp add: round_half_even_def Let_def)
next
  case False
  with assms have f: "\<lfloor>x\<rfloor> = n - 1"
    by (intro floor_unique) (simp_all add: abs_if split: if_splits)
  with assms False have "1 / 2 < x - of_int \<lfloor>x\<rfloor>" by (simp add: abs_if split: if_splits)
  with f show ?thesis by (simp add: round_half_even_def Let_def)
qed

lemma round_half_even_ge:
  assumes "of_int n \<le> x"
  shows "n \<le> round_half_even x"
proof -
  from assms have "n \<le> \<lfloor>x\<rfloor>" by (simp add: le_floor_iff)
  then show ?thesis by (simp add: round_half_even_def Let_def)
qed

lemma round_half_even_le:
  assumes "x \<le> of_int n"
  shows "round_half_even x \<le> n"
proof (cases "x = of_int n")
  case True
  then show ?thesis by (simp add: round_half_even_def Let_def)
next
  case False
  with assms have "x < of_int n" by simp
  then have "\<lfloor>x\<rfloor> < n" by (simp add: floor_less_iff)
  then show ?thesis by (simp add: round_half_even_def Let_def)
qed

lemma round_double_eqI:
  assumes "0 < q" and "q < double_overflow"
    and "2 powi e \<le> q" and "q < 2 powi (e + 1)" and "- 1022 \<le> e"
    and "\<bar>q / 2 powi (e - 52) - of_int n\<bar> < 1 / 2"
  shows "round_double q = Some (of_int n * 2 powi (e - 52))"
proof -
  have "binade q = e" using assms(1,3,4) by (rule binade_unique)
  with assms(5) have "max (binade \<bar>q\<bar>) (- 1022) = e" using assms(1) by simp
  moreover have "round_half_even (q / 2 powi (e - 52)) = n" using assms(6) by (rule round_half_even_near)
  ultimately show ?thesis
    using assms(1,2) by (simp add: round_double_def Let_def)
qed

lemma round_double_minus: "round_double (- q) = map_option uminus (round_double q)"
  by (simp add: round_double_def Let_def)

lemma round_double_pos:
  assumes "0 < q" and "round_double q = Some r"
  shows "r = of_int (round_half_even (q / 2 powi (max (binade q) (- 1022) - 52)))
               * 2 powi (max (binade q) (- 1022) - 52)"
    and "r \<le> 2 powi (max (binade q) (- 1022) + 1)"
    and "- 1022 \<le> binade q \<Longrightarrow> 2 powi binade q \<le> r"
proof -
  define e where "e = max (binade q) (- 1022)"
  define u :: rat where "u = 2 powi (e - 52)"
  define n where "n = round_half_even (q / u)"
  have upos: "0 < u" by (simp add: u_def)
  from assms show r: "r = of_int (round_half_even (q / 2 powi (max (binade q) (- 1022) - 52)))
               * 2 powi (max (binade q) (- 1022) - 52)"
    by (simp add: round_double_def Let_def split: if_splits)
  then have rn: "r = of_int n * u" by (simp add: n_def u_def e_def)
  have hi: "2 powi (e + 1) = u * 2 ^ 53"
  proof -
    have "(2::rat) powi ((e - 52) + 53) = 2 powi (e - 52) * 2 powi 53"
      by (rule power_int_add) simp
    then show ?thesis by (simp add: u_def add.commute)
  qed
  have lo: "2 powi e = u * 2 ^ 52"
  proof -
    have "(2::rat) powi ((e - 52) + 52) = 2 powi (e - 52) * 2 powi 52"
      by (rule power_int_add) simp
    then show ?thesis by (simp add: u_def)
  qed
  have "q < 2 powi (binade q + 1)" using assms(1) by (rule binade_bounds)
  also have "\<dots> \<le> 2 powi (e + 1)" by (intro power_int_increasing) (simp_all add: e_def)
  finally have "q < u * 2 ^ 53" by (simp add: hi)
  with upos have "q / u \<le> of_int (2 ^ 53)" by (simp add: field_simps)
  then have "n \<le> 2 ^ 53" unfolding n_def by (rule round_half_even_le)
  then have "rat_of_int n \<le> 2 ^ 53" by (metis of_int_le_iff of_int_numeral of_int_power)
  with upos have "of_int n * u \<le> 2 ^ 53 * u" by (simp only: mult_le_cancel_right_pos)
  then have "r \<le> 2 powi (e + 1)" by (simp add: rn hi mult.commute)
  then show "r \<le> 2 powi (max (binade q) (- 1022) + 1)" by (simp add: e_def)
  show "2 powi binade q \<le> r" if b: "- 1022 \<le> binade q"
  proof -
    from b have eb: "e = binade q" by (simp add: e_def)
    have "2 powi binade q \<le> q" using assms(1) by (rule binade_bounds)
    then have "u * 2 ^ 52 \<le> q" by (simp add: eb[symmetric] lo)
    with upos have "of_int (2 ^ 52) \<le> q / u" by (simp add: field_simps)
    then have "2 ^ 52 \<le> n" unfolding n_def by (rule round_half_even_ge)
    then have "2 ^ 52 \<le> rat_of_int n" by (metis of_int_le_iff of_int_numeral of_int_power)
    with upos have "2 ^ 52 * u \<le> of_int n * u" by (simp only: mult_le_cancel_right_pos)
    then show ?thesis by (simp add: rn eb[symmetric] lo mult.commute)
  qed
qed

lemma round_double_nonpos:
  assumes "q \<le> 0" and "round_double q = Some r"
  shows "r \<le> 0"
proof (cases "q = 0")
  case True
  with assms show ?thesis by (simp add: round_double_def split: if_splits)
next
  case False
  with assms(1) have "0 < - q" by simp
  moreover from assms(2) have "round_double (- q) = Some (- r)" by (simp add: round_double_minus)
  ultimately have "- r = of_int (round_half_even (- q / 2 powi (max (binade (- q)) (- 1022) - 52)))
               * 2 powi (max (binade (- q)) (- 1022) - 52)"
    by (rule round_double_pos)
  moreover have "0 \<le> round_half_even (- q / 2 powi (max (binade (- q)) (- 1022) - 52))"
  proof (rule round_half_even_ge)
    have "0 \<le> - q / 2 powi (max (binade (- q)) (- 1022) - 52)"
      using \<open>0 < - q\<close> by (intro divide_nonneg_pos) simp_all
    then show "rat_of_int 0 \<le> - q / 2 powi (max (binade (- q)) (- 1022) - 52)"
      by (simp only: of_int_0)
  qed
  ultimately have "0 \<le> - r" by simp
  then show ?thesis by simp
qed

lemma round_double_gap_85:
  assumes "round_double q = Some r"
  shows "7656119366529843 / 2 ^ 53 < r \<longleftrightarrow> 85 / 100 < r"
proof
  assume "85 / 100 < r"
  then show "7656119366529843 / 2 ^ 53 < r" by simp
next
  assume gt: "7656119366529843 / 2 ^ 53 < r"
  show "85 / 100 < r"
  proof (rule ccontr)
    assume "\<not> 85 / 100 < r"
    then have le: "r \<le> 85 / 100" by simp
    from gt have rpos: "0 < r" by simp
    have qpos: "0 < q"
    proof (rule ccontr)
      assume "\<not> 0 < q"
      then have "q \<le> 0" by simp
      from round_double_nonpos[OF this assms] rpos show False by simp
    qed
    define e where "e = max (binade q) (- 1022)"
    note rd = round_double_pos[OF qpos assms, folded e_def]
    from gt have "2 powi (- 1) < r" by (simp add: power_int_minus)
    with rd(2) have "(2::rat) powi (- 1) < 2 powi (e + 1)" by simp
    then have "- 1 < e + 1" by (rule power2_int_less_cancel)
    then have b: "binade q = e" "- 1022 \<le> binade q" by (simp_all add: e_def max_def split: if_splits)
    from rd(3)[OF b(2)] le have "(2::rat) powi e < 2 powi 0" by (simp add: b(1))
    then have "e < 0" by (rule power2_int_less_cancel)
    with \<open>- 1 < e + 1\<close> have e: "e = - 1" by simp
    define n where "n = round_half_even (q / 2 powi (e - 52))"
    from rd(1) have r: "r = of_int n / 2 ^ 53"
      by (simp add: n_def e power_int_minus field_simps)
    from gt have "rat_of_int 7656119366529843 < of_int n"
      unfolding r by (simp add: field_simps)
    then have 1: "7656119366529843 < n" by (simp only: of_int_less_iff)
    from le have "rat_of_int (n * 100) \<le> of_int (85 * 2 ^ 53)"
      unfolding r by (simp add: field_simps)
    then have "n * 100 \<le> 85 * 2 ^ 53" by (simp only: of_int_le_iff)
    with 1 show False by simp
  qed
qed

lemma round_double_nonzero:
  assumes "1 \<le> \<bar>q\<bar>" and "round_double q = Some r"
  shows "r \<noteq> 0"
proof -
  have pos: "r \<noteq> 0" if "1 \<le> q" "round_double q = Some r" for q r
  proof -
    from that(1) have qpos: "0 < q" by simp
    have "(2::rat) powi 0 \<le> q" using that(1) by simp
    also have "q < 2 powi (binade q + 1)" using qpos by (rule binade_bounds)
    finally have "0 < binade q + 1" by (rule power2_int_less_cancel)
    then have "- 1022 \<le> binade q" by simp
    from round_double_pos(3)[OF qpos that(2) this] have "0 < r"
      by (rule less_le_trans[rotated]) simp
    then show ?thesis by simp
  qed
  show ?thesis
  proof (cases "0 \<le> q")
    case True
    with assms pos[of q r] show ?thesis by simp
  next
    case False
    with assms(1) have "1 \<le> - q" by simp
    moreover from assms(2) have "round_double (- q) = Some (- r)" by (simp add: round_double_minus)
    ultimately have "- r \<noteq> 0" by (rule pos)
    then show ?thesis by simp
  qed
qed

lemma round_double_some:
  "\<bar>q\<bar> < double_overflow \<Longrightarrow> \<exists>r. round_double q = Some r"
  by (simp add: round_double_def Let_def)

lemma abs_of_int_ge_1:
  assumes "i \<noteq> 0"
  shows "1 \<le> \<bar>rat_of_int i\<bar>"
proof -
  from assms have "1 \<le> \<bar>i\<bar>" by simp
  then have "rat_of_int 1 \<le> rat_of_int \<bar>i\<bar>" by (simp only: of_int_le_iff)
  then show ?thesis by simp
qed

text \<open>The rounded values the examples below need. Each follows from the binade of the
  argument and the integer within one half of the scaled argument.\<close>

lemma round_double_7_10: "round_double (7 / 10) = Some (6305039478318694 / 2 ^ 53)"
  using round_double_eqI[of "7 / 10" "- 1" 6305039478318694]
  by (simp add: double_overflow_def)

lemma round_double_9_20: "round_double (9 / 20) = Some (8106479329266893 / 2 ^ 54)"
  using round_double_eqI[of "9 / 20" "- 2" 8106479329266893]
  by (simp add: double_overflow_def)

lemma round_double_9_10: "round_double (9 / 10) = Some (8106479329266893 / 2 ^ 53)"
  using round_double_eqI[of "9 / 10" "- 1" 8106479329266893]
  by (simp add: double_overflow_def)

lemma round_double_3_5: "round_double (3 / 5) = Some (5404319552844595 / 2 ^ 53)"
  using round_double_eqI[of "3 / 5" "- 1" 5404319552844595]
  by (simp add: double_overflow_def)

lemma round_double_2_5: "round_double (2 / 5) = Some (7205759403792794 / 2 ^ 54)"
  using round_double_eqI[of "2 / 5" "- 2" 7205759403792794]
  by (simp add: double_overflow_def)

lemma round_double_4_5: "round_double (4 / 5) = Some (7205759403792794 / 2 ^ 53)"
  using round_double_eqI[of "4 / 5" "- 1" 7205759403792794]
  by (simp add: double_overflow_def)

lemma round_double_3_4: "round_double (3 / 4) = Some (6755399441055744 / 2 ^ 53)"
  using round_double_eqI[of "3 / 4" "- 1" 6755399441055744]
  by (simp add: double_overflow_def)

lemma round_double_1_2: "round_double (1 / 2) = Some (4503599627370496 / 2 ^ 53)"
  using round_double_eqI[of "1 / 2" "- 1" 4503599627370496]
  by (simp add: double_overflow_def)

lemma round_double_17_20: "round_double (17 / 20) = Some (7656119366529843 / 2 ^ 53)"
  using round_double_eqI[of "17 / 20" "- 1" 7656119366529843]
  by (simp add: double_overflow_def)

lemma round_double_18_19: "round_double (18 / 19) = Some (8533136136070413 / 2 ^ 53)"
  using round_double_eqI[of "18 / 19" "- 1" 8533136136070413]
  by (simp add: double_overflow_def)

lemma round_double_9_19: "round_double (9 / 19) = Some (8533136136070413 / 2 ^ 54)"
  using round_double_eqI[of "9 / 19" "- 2" 8533136136070413]
  by (simp add: double_overflow_def)

lemma round_double_near_3_4:
  "round_double (749999999999999999999 / 10 ^ 21) = Some (3 / 4)"
  using round_double_eqI[of "749999999999999999999 / 10 ^ 21" "- 1" 6755399441055744]
  by (simp add: double_overflow_def)

lemma round_double_tiny:
  "round_double (1 / 10 ^ 21) = Some (5316911983139663 / 2 ^ 122)"
  using round_double_eqI[of "1 / 10 ^ 21" "- 70" 5316911983139663]
  by (simp add: double_overflow_def)

lemma round_double_huge: "round_double (10 ^ 400) = None"
  by (simp add: round_double_def double_overflow_def)

lemma py_float_075: "py_float 0.75 = JNum 0.75"
  by (simp add: py_float_def round_double_3_4)

lemma py_float_05: "py_float 0.5 = JNum 0.5"
  by (simp add: py_float_def round_double_1_2)

lemma py_float_085: "py_float 0.85 = JNum (7656119366529843 / 2 ^ 53)"
  by (simp add: py_float_def round_double_17_20)

lemma round_double_100: "round_double 100 = Some 100"
  using round_double_eqI[of 100 6 7036874417766400]
  by (simp add: double_overflow_def)

lemma round_double_33_50: "round_double (33 / 50) = Some (5944751508129055 / 2 ^ 53)"
  using round_double_eqI[of "33 / 50" "- 1" 5944751508129055]
  by (simp add: double_overflow_def)

lemma round_double_1_100: "round_double (1 / 100) = Some (5764607523034235 / 2 ^ 59)"
  using round_double_eqI[of "1 / 100" "- 7" 5764607523034235]
  by (simp add: double_overflow_def)

lemma round_double_30: "round_double 30 = Some 30"
  using round_double_eqI[of 30 4 8444249301319680]
  by (simp add: double_overflow_def)

lemma round_double_float_near_3_4:
  "round_double (3715469692580660 / 4953959590107547) = Some (3 / 4)"
  using round_double_eqI[of "3715469692580660 / 4953959590107547" "- 1" 6755399441055744]
  by (simp add: double_overflow_def)

lemma round_double_30_float:
  "round_double (2111062325329920 / 4953959590107547) = Some (7676590273926980 / 2 ^ 54)"
  using round_double_eqI[of "2111062325329920 / 4953959590107547" "- 2" 7676590273926980]
  by (simp add: double_overflow_def)

subsection \<open>Body-type classification\<close>

lemma ieee_div_result:
  "(\<exists>q r. round_double q = Some r \<and> ieee_div x y = JNum r)
   \<or> ieee_div x y = JInfinity \<or> ieee_div x y = JNegInfinity \<or> ieee_div x y = JNaN"
proof -
  have zero: "round_double 0 = Some 0"
    by (simp add: round_double_def double_overflow_def)
  show ?thesis
  proof (cases x)
    case (JNum a)
    show ?thesis
    proof (cases y)
      case (JNum b)
      show ?thesis
      proof (cases "round_double (a / b)")
        case None
        with \<open>x = JNum a\<close> JNum show ?thesis by simp
      next
        case (Some r)
        with \<open>x = JNum a\<close> JNum have "ieee_div x y = JNum r" by simp
        with Some show ?thesis by blast
      qed
    qed (use JNum zero in auto)
  next
    case JInfinity
    then show ?thesis by (cases y) simp_all
  next
    case JNegInfinity
    then show ?thesis by (cases y) simp_all
  qed simp_all
qed

lemma py_truediv_result:
  assumes "py_truediv a b = Inr v"
  shows "(\<exists>q r. round_double q = Some r \<and> v = JNum r)
         \<or> v = JInfinity \<or> v = JNegInfinity \<or> v = JNaN"
proof (cases "\<exists>i j. int_of a = Some i \<and> int_of b = Some j")
  case True
  then obtain i j where ij: "int_of a = Some i" "int_of b = Some j" by blast
  with assms obtain r where "round_double (of_int i / of_int j) = Some r" "v = JNum r"
    by (auto simp: py_truediv_def split: if_splits option.splits)
  then show ?thesis by blast
next
  case False
  with assms obtain x y where "float_div x y = Inr v"
    by (auto simp: py_truediv_def then_res_def split: if_splits option.splits sum.splits)
  then have "v = ieee_div x y"
    by (simp add: float_div_def split: if_splits)
  with ieee_div_result[of x y] show ?thesis by simp
qed

lemma py_gt_085:
  assumes "py_truediv a b = Inr v"
  shows "py_gt v (py_float 0.85) = py_gt v (JNum 0.85)"
proof -
  from py_truediv_result[OF assms] consider
    (num) q r where "round_double q = Some r" "v = JNum r"
    | (other) "v = JInfinity \<or> v = JNegInfinity \<or> v = JNaN"
    by blast
  then show ?thesis
  proof cases
    case num
    from round_double_gap_85[OF num(1)] show ?thesis
      unfolding py_float_085 py_gt_def num(2) by simp
  next
    case other
    then show ?thesis unfolding py_float_085 py_gt_def by auto
  qed
qed

lemma classify_body_type_ratios:
  assumes "map_of kvs ''measurements'' = Some (JObj ms)"
    and "py_truediv (measurement ms ''waistCircumference'' 80)
           (measurement ms ''hipCircumference'' 100) = Inr waist_to_hip"
    and "py_truediv (measurement ms ''shoulderWidth'' 45)
           (measurement ms ''hipCircumference'' 100) = Inr shoulder_to_hip"
  shows "classify_body_type (JObj kvs) =
           Inr (JObj [(''bodyType'', JStr (spec_body_type waist_to_hip shoulder_to_hip)),
                      (''confidence'', JNum 0.87)])"
proof -
  have "classify_body_type (JObj kvs) =
          Inr (JObj [(''bodyType'', JStr
                 (if py_lt waist_to_hip (py_float 0.75) then ''hourglass''
                  else if py_gt shoulder_to_hip (py_float 0.5) then ''inverted-triangle''
                  else if py_gt waist_to_hip (py_float 0.85) then ''rectangle''
                  else ''pear'')),
               (''confidence'', JNum 0.87)])"
    using assms
    by (simp add: classify_body_type_def then_res_def measurement_def Let_def)
  then show ?thesis
    by (simp only: py_float_075 py_float_05 py_gt_085[OF assms(2)] spec_body_type_def)
qed

lemma py_truediv_ints:
  assumes "j \<noteq> 0" and "round_double (of_int i / of_int j) = Some r"
  shows "py_truediv (JInt i) (JInt j) = Inr (JNum r)"
  using assms by (simp add: py_truediv_def is_number_def)

lemma classify_body_type_vector:
  assumes "hip \<noteq> 0"
    and "round_double (of_int waist / of_int hip) = Some w"
    and "round_double (of_int shoulder / of_int hip) = Some s"
  shows "classify_body_type (measurements_request waist hip shoulder) =
           Inr (JObj [(''bodyType'', JStr (spec_body_type (JNum w) (JNum s))),
                      (''confidence'', JNum 0.87)])"
  unfolding measurements_request_def
  by (rule classify_body_type_ratios[where ms = "[(''waistCircumference'', JInt waist),
                  (''hipCircumference'', JInt hip), (''shoulderWidth'', JInt shoulder)]"])
     (simp_all add: measurement_def py_truediv_ints[OF assms(1)] assms)

text \<open>
  C1. For a request whose \<open>measurements\<close> is a dict, take \<open>waist\<close>, \<open>hip\<close> and \<open>shoulder\<close> as
  the values under \<open>waistCircumference\<close> (fallback 80), \<open>hipCircumference\<close> (fallback 100)
  and \<open>shoulderWidth\<close> (fallback 45). Whenever the handler's two divisions \<open>waist / hip\<close> and
  \<open>shoulder / hip\<close> return, the handler returns the body type of the specification's
  first-match procedure on these two ratios (hourglass when \<open>waist / hip < 0.75\<close>, else
  inverted-triangle when \<open>shoulder / hip > 0.5\<close>, else rectangle when \<open>waist / hip > 0.85\<close>,
  else pear, the thresholds being the decimals), with confidence 0.87. The four test
  vectors of the specification hold.
\<close>

theorem classify_body_type_first_match:
  "(map_of kvs ''measurements'' = Some (JObj ms)
      \<and> py_truediv (measurement ms ''waistCircumference'' 80)
           (measurement ms ''hipCircumference'' 100) = Inr waist_to_hip
      \<and> py_truediv (measurement ms ''shoulderWidth'' 45)
           (measurement ms ''hipCircumference'' 100) = Inr shoulder_to_hip
    \<longrightarrow> classify_body_type (JObj kvs) =
           Inr (JObj [(''bodyType'', JStr (spec_body_type waist_to_hip shoulder_to_hip)),
                      (''confidence'', JNum 0.87)]))
   \<and> classify_body_type (measurements_request 70 100 45) =
       Inr (JObj [(''bodyType'', JStr ''hourglass''), (''confidence'', JNum 0.87)])
   \<and> classify_body_type (measurements_request 90 100 60) =
       Inr (JObj [(''bodyType'', JStr ''inverted-triangle''), (''confidence'', JNum 0.87)])
   \<and> classify_body_type (measurements_request 90 100 40) =
       Inr (JObj [(''bodyType'', JStr ''rectangle''), (''confidence'', JNum 0.87)])
   \<and> classify_body_type (measurements_request 80 100 40) =
       Inr (JObj [(''bodyType'', JStr ''pear''), (''confidence'', JNum 0.87)])"
proof -
  have v1: "classify_body_type (measurements_request 70 100 45) =
       Inr (JObj [(''bodyType'', JStr ''hourglass''), (''confidence'', JNum 0.87)])"
    using classify_body_type_vector[of 100 70 "6305039478318694 / 2 ^ 53" 45 "8106479329266893 / 2 ^ 54"]
    by (simp add: round_double_7_10 round_double_9_20 spec_body_type_def py_gt_def)
  have v2: "classify_body_type (measurements_request 90 100 60) =
       Inr (JObj [(''bodyType'', JStr ''inverted-triangle''), (''confidence'', JNum 0.87)])"
    using classify_body_type_vector[of 100 90 "8106479329266893 / 2 ^ 53" 60 "5404319552844595 / 2 ^ 53"]
    by (simp add: round_double_9_10 round_double_3_5 spec_body_type_def py_gt_def)
  have v3: "classify_body_type (measurements_request 90 100 40) =
       Inr (JObj [(''bodyType'', JStr ''rectangle''), (''confidence'', JNum 0.87)])"
    using classify_body_type_vector[of 100 90 "8106479329266893 / 2 ^ 53" 40 "7205759403792794 / 2 ^ 54"]
    by (simp add: round_double_9_10 round_double_2_5 spec_body_type_def py_gt_def)
  have v4: "classify_body_type (measurements_request 80 100 40) =
       Inr (JObj [(''bodyType'', JStr ''pear''), (''confidence'', JNum 0.87)])"
    using classify_body_type_vector[of 100 80 "7205759403792794 / 2 ^ 53" 40 "7205759403792794 / 2 ^ 54"]
    by (simp add: round_double_4_5 round_double_2_5 spec_body_type_def py_gt_def)
  from v1 v2 v3 v4 classify_body_type_ratios[of kvs ms waist_to_hip shoulder_to_hip]
  show ?thesis by blast
qed

text \<open>The theorem at a measurement object without \<open>hipCircumference\<close>, whose waist is a
  float and whose \<open>shoulderWidth\<close> is a boolean.\<close>

theorem classify_body_type_first_match_witness:
  "map_of [(''measurements'', JObj [(''waistCircumference'', JNum 66), (''shoulderWidth'', JBool True)])]
      ''measurements''
     = Some (JObj [(''waistCircumference'', JNum 66), (''shoulderWidth'', JBool True)])
   \<and> py_truediv
         (measurement [(''waistCircumference'', JNum 66), (''shoulderWidth'', JBool True)]
            ''waistCircumference'' 80)
         (measurement [(''waistCircumference'', JNum 66), (''shoulderWidth'', JBool True)]
            ''hipCircumference'' 100)
     = Inr (JNum (5944751508129055 / 2 ^ 53))
   \<and> py_truediv
         (measurement [(''waistCircumference'', JNum 66), (''shoulderWidth'', JBool True)]
            ''shoulderWidth'' 45)
         (measurement [(''waistCircumference'', JNum 66), (''shoulderWidth'', JBool True)]
            ''hipCircumference'' 100)
     = Inr (JNum (5764607523034235 / 2 ^ 59))
   \<and> classify_body_type
        (JObj [(''measurements'', JObj [(''waistCircumference'', JNum 66), (''shoulderWidth'', JBool True)])])
     = Inr (JObj [(''bodyType'', JStr ''hourglass''), (''confidence'', JNum 0.87)])"
  using classify_body_type_first_match
    [of "[(''measurements'', JObj [(''waistCircumference'', JNum 66), (''shoulderWidth'', JBool True)])]"
        "[(''waistCircumference'', JNum 66), (''shoulderWidth'', JBool True)]"
        "JNum (5944751508129055 / 2 ^ 53)" "JNum (5764607523034235 / 2 ^ 59)"]
  by (simp add: measurement_def py_truediv_def is_number_def as_double_def float_div_def
      then_res_def round_double_100 round_double_33_50 round_double_1_100
      spec_body_type_def py_gt_def)

text \<open>
  The ratio the handler compares is the double that the division returns. For the
  integers 749999999999999999999 and \<open>10 ^ 21\<close> the quotient is below 0.75 and rounds to
  0.75, so that the first test fails and the body type is pear. The same holds for the
  floats that the parser reads from 52.80000000000001 and 70.40000000000002.
\<close>

lemma classify_body_type_rounded_ratio:
  "classify_body_type (measurements_request 749999999999999999999 (10 ^ 21) 1) =
     Inr (JObj [(''bodyType'', JStr ''pear''), (''confidence'', JNum 0.87)])"
proof -
  have hip: "(10 ^ 21 :: int) \<noteq> 0" by simp
  have w: "round_double (rat_of_int 749999999999999999999 / rat_of_int (10 ^ 21)) = Some (3 / 4)"
    using round_double_near_3_4 by simp
  have s: "round_double (rat_of_int 1 / rat_of_int (10 ^ 21)) = Some (5316911983139663 / 2 ^ 122)"
    using round_double_tiny by simp
  from classify_body_type_vector[OF hip w s] show ?thesis
    by (simp add: spec_body_type_def py_gt_def)
qed

lemma classify_body_type_rounded_float_ratio:
  "classify_body_type
     (JObj [(''measurements'',
        JObj [(''waistCircumference'', JNum (928867423145165 / 2 ^ 44)),
              (''hipCircumference'', JNum (4953959590107547 / 2 ^ 46)),
              (''shoulderWidth'', JInt 30)])]) =
     Inr (JObj [(''bodyType'', JStr ''pear''), (''confidence'', JNum 0.87)])"
proof -
  let ?ms = "[(''waistCircumference'', JNum (928867423145165 / 2 ^ 44)),
              (''hipCircumference'', JNum (4953959590107547 / 2 ^ 46)),
              (''shoulderWidth'', JInt 30)]"
  have w: "py_truediv (measurement ?ms ''waistCircumference'' 80)
             (measurement ?ms ''hipCircumference'' 100) = Inr (JNum (3 / 4))"
    by (simp add: measurement_def py_truediv_def is_number_def as_double_def float_div_def
        then_res_def round_double_float_near_3_4)
  have s: "py_truediv (measurement ?ms ''shoulderWidth'' 45)
             (measurement ?ms ''hipCircumference'' 100) = Inr (JNum (7676590273926980 / 2 ^ 54))"
    by (simp add: measurement_def py_truediv_def is_number_def as_double_def float_div_def
        then_res_def round_double_30 round_double_30_float)
  have "classify_body_type (JObj [(''measurements'', JObj ?ms)]) =
          Inr (JObj [(''bodyType'', JStr (spec_body_type (JNum (3 / 4))
                 (JNum (7676590273926980 / 2 ^ 54)))), (''confidence'', JNum 0.87)])"
    by (rule classify_body_type_ratios[OF _ w s]) simp
  then show ?thesis
    by (simp add: spec_body_type_def py_gt_def)
qed

lemma int_of_num_of: "int_of v = Some i \<Longrightarrow> num_of v = Some (of_int i)"
  by (cases v) (auto split: if_splits)

lemma is_float_num_of: "is_float v \<Longrightarrow> num_of v \<noteq> Some 0 \<Longrightarrow> v \<noteq> JNum 0"
  by (cases v) auto

lemma as_double_returns:
  assumes "is_number v" and "fits_double v"
  shows "\<exists>x. as_double v = Inr x \<and> (num_of v \<noteq> Some 0 \<longrightarrow> x \<noteq> JNum 0)"
proof (cases "int_of v")
  case None
  with assms(1) have f: "is_float v" by (simp add: is_number_def)
  with None have "as_double v = Inr v" by (simp add: as_double_def)
  with is_float_num_of[OF f] show ?thesis by blast
next
  case (Some i)
  with assms(2) have "\<bar>rat_of_int i\<bar> < double_overflow" by (simp add: fits_double_def)
  from round_double_some[OF this] obtain r where r: "round_double (of_int i) = Some r" by blast
  with Some have a: "as_double v = Inr (JNum r)" by (simp add: as_double_def)
  have "r \<noteq> 0" if "num_of v \<noteq> Some 0"
  proof -
    from that int_of_num_of[OF Some] have "i \<noteq> 0" by auto
    then have "1 \<le> \<bar>rat_of_int i\<bar>" by (rule abs_of_int_ge_1)
    from round_double_nonzero[OF this r] show ?thesis .
  qed
  with a show ?thesis by simp
qed

lemma py_truediv_returns:
  assumes "is_number a" and "is_number b" and "fits_double a" and "fits_double b"
    and "num_of b \<noteq> Some 0"
  shows "\<exists>v. py_truediv a b = Inr v"
proof (cases "\<exists>i j. int_of a = Some i \<and> int_of b = Some j")
  case True
  then obtain i j where ij: "int_of a = Some i" "int_of b = Some j" by blast
  from assms(5) int_of_num_of[OF ij(2)] have j: "j \<noteq> 0" by auto
  then have "1 \<le> \<bar>rat_of_int j\<bar>" by (rule abs_of_int_ge_1)
  then have "\<bar>rat_of_int i / of_int j\<bar> \<le> \<bar>rat_of_int i\<bar>"
    by (simp add: field_simps mult_le_cancel_left1 abs_mult) 
  also from assms(3) ij(1) have "\<bar>rat_of_int i\<bar> < double_overflow" by (simp add: fits_double_def)
  finally obtain r where "round_double (of_int i / of_int j) = Some r"
    using round_double_some by blast
  with ij j assms(1,2) show ?thesis by (simp add: py_truediv_def)
next
  case False
  from as_double_returns[OF assms(1,3)] obtain x where x: "as_double a = Inr x" by blast
  from as_double_returns[OF assms(2,4)] assms(5) obtain y where
    y: "as_double b = Inr y" "y \<noteq> JNum 0" by blast
  from False have "py_truediv a b = then_res (as_double a) (\<lambda>x. then_res (as_double b) (\<lambda>y. float_div x y))"
    using assms(1,2) by (auto simp: py_truediv_def split: option.splits)
  with x y show ?thesis by (simp add: then_res_def float_div_def)
qed

lemma measurement_number:
  assumes "numeric_measurements ms"
  shows "is_number (measurement ms k fallback)"
proof (cases "map_of ms k")
  case None
  then show ?thesis by (simp add: measurement_def is_number_def)
next
  case (Some v)
  then have "(k, v) \<in> set ms" by (rule map_of_SomeD)
  with assms have "is_number v"
    by (auto simp: numeric_measurements_def list_all_iff)
  with Some show ?thesis by (simp add: measurement_def)
qed

lemma measurement_fits:
  assumes "integers_fit_double ms" and "\<bar>rat_of_int fallback\<bar> < double_overflow"
  shows "fits_double (measurement ms k fallback)"
proof (cases "map_of ms k")
  case None
  with assms(2) show ?thesis by (simp add: measurement_def fits_double_def)
next
  case (Some v)
  then have "(k, v) \<in> set ms" by (rule map_of_SomeD)
  with assms(1) have "fits_double v"
    by (auto simp: integers_fit_double_def list_all_iff)
  with Some show ?thesis by (simp add: measurement_def)
qed

text \<open>
  C6, as amended. For every measurement object with numeric values, possibly omitting
  some keys, whose integers are within the range of doubles and whose \<open>hipCircumference\<close>
  (fallback 100) is not zero, the classification succeeds: the handler returns a body type
  with confidence 0.87 and the status is 200.
\<close>

theorem classify_body_type_succeeds:
  assumes "map_of kvs ''measurements'' = Some (JObj ms)"
    and "numeric_measurements ms"
    and "integers_fit_double ms"
    and "num_of (measurement ms ''hipCircumference'' 100) \<noteq> Some 0"
  shows "\<exists>body_type. classify_body_type (JObj kvs) =
             Inr (JObj [(''bodyType'', JStr body_type), (''confidence'', JNum 0.87)])
           \<and> http_status (classify_body_type (JObj kvs)) = 200"
proof -
  have small: "\<bar>rat_of_int 80\<bar> < double_overflow" "\<bar>rat_of_int 100\<bar> < double_overflow"
      "\<bar>rat_of_int 45\<bar> < double_overflow"
    by (simp_all add: double_overflow_def)
  note n = measurement_number[OF assms(2)]
  note f = measurement_fits[OF assms(3)]
  from py_truediv_returns[OF n n f[OF small(1)] f[OF small(2)] assms(4)]
  obtain waist_to_hip where w: "py_truediv (measurement ms ''waistCircumference'' 80)
           (measurement ms ''hipCircumference'' 100) = Inr waist_to_hip" by blast
  from py_truediv_returns[OF n n f[OF small(3)] f[OF small(2)] assms(4)]
  obtain shoulder_to_hip where s: "py_truediv (measurement ms ''shoulderWidth'' 45)
           (measurement ms ''hipCircumference'' 100) = Inr shoulder_to_hip" by blast
  from classify_body_type_ratios[OF assms(1) w s] show ?thesis
    by (simp add: http_status_def)
qed

text \<open>The theorem at a measurement object that omits \<open>shoulderWidth\<close>.\<close>

theorem classify_body_type_succeeds_witness:
  "map_of [(''measurements'', JObj [(''hipCircumference'', JInt 95), (''waistCircumference'', JInt 90)])]
      ''measurements''
     = Some (JObj [(''hipCircumference'', JInt 95), (''waistCircumference'', JInt 90)])
   \<and> numeric_measurements [(''hipCircumference'', JInt 95), (''waistCircumference'', JInt 90)]
   \<and> integers_fit_double [(''hipCircumference'', JInt 95), (''waistCircumference'', JInt 90)]
   \<and> num_of (measurement [(''hipCircumference'', JInt 95), (''waistCircumference'', JInt 90)]
        ''hipCircumference'' 100) \<noteq> Some 0
   \<and> classify_body_type
        (JObj [(''measurements'', JObj [(''hipCircumference'', JInt 95), (''waistCircumference'', JInt 90)])])
     = Inr (JObj [(''bodyType'', JStr ''rectangle''), (''confidence'', JNum 0.87)])
   \<and> http_status (classify_body_type
        (JObj [(''measurements'', JObj [(''hipCircumference'', JInt 95), (''waistCircumference'', JInt 90)])]))
     = 200"
  using classify_body_type_succeeds
    [of "[(''measurements'', JObj [(''hipCircumference'', JInt 95), (''waistCircumference'', JInt 90)])]"
        "[(''hipCircumference'', JInt 95), (''waistCircumference'', JInt 90)]"]
  by (simp add: measurement_def numeric_measurements_def integers_fit_double_def fits_double_def
      is_number_def double_overflow_def classify_body_type_def then_res_def py_truediv_def
      round_double_18_19 round_double_9_19 py_float_075[simplified] py_float_05[simplified]
      py_float_085[simplified] py_gt_def http_status_def)

text \<open>
  C6, as stated, fails. The measurement object \<open>{hipCircumference: 0}\<close> has numeric values,
  and the division by \<open>hip\<close> raises ZeroDivisionError; the object
  \<open>{waistCircumference: 10 ^ 400, hipCircumference: 1}\<close> has numeric values and a hip that is
  not zero, and the division raises OverflowError. Either exception leaves the handler.
\<close>

theorem classify_body_type_faults_counterexample:
  "numeric_measurements [(''hipCircumference'', JInt 0)]
   \<and> classify_body_type (JObj [(''measurements'', JObj [(''hipCircumference'', JInt 0)])])
     = Inl ZeroDivisionError
   \<and> http_status (classify_body_type (JObj [(''measurements'', JObj [(''hipCircumference'', JInt 0)])]))
     = 500
   \<and> numeric_measurements [(''waistCircumference'', JInt (10 ^ 400)), (''hipCircumference'', JInt 1)]
   \<and> classify_body_type
        (JObj [(''measurements'',
               JObj [(''waistCircumference'', JInt (10 ^ 400)), (''hipCircumference'', JInt 1)])])
     = Inl OverflowError
   \<and> http_status (classify_body_type
        (JObj [(''measurements'',
               JObj [(''waistCircumference'', JInt (10 ^ 400)), (''hipCircumference'', JInt 1)])]))
     = 500"
  by (simp add: numeric_measurements_def is_number_def classify_body_type_def then_res_def
      py_truediv_def round_double_def double_overflow_def http_status_def)

subsection \<open>Measurement extraction\<close>

lemma base_measurements_draws:
  "base_measurements g unit =
     [(''height'', JNum (170 + g 0 * 20)),
      (''shoulderWidth'', JNum (40 + g 1 * 10)),
      (''chestCircumference'', JNum (90 + g 2 * 15)),
      (''waistCircumference'', JNum (75 + g 3 * 15)),
      (''hipCircumference'', JNum (95 + g 4 * 15)),
      (''armLength'', JNum (55 + g 5 * 10)),
      (''inseam'', JNum (75 + g 6 * 10)),
      (''neckCircumference'', JNum (35 + g 7 * 5)),
      (''thighCircumference'', JNum (50 + g 8 * 10)),
      (''confidence'', JNum 0.89),
      (''unit'', unit)]"
  by (simp add: base_measurements_def random_random_def eval_nat_numeral)

lemma to_imperial_base:
  "to_imperial
     [(''height'', JNum h), (''shoulderWidth'', JNum s), (''chestCircumference'', JNum c),
      (''waistCircumference'', JNum w), (''hipCircumference'', JNum hp), (''armLength'', JNum a),
      (''inseam'', JNum i), (''neckCircumference'', JNum n), (''thighCircumference'', JNum t),
      (''confidence'', JNum cf), (''unit'', unit)] measurement_keys =
   Inr [(''height'', JNum (h / 2.54)), (''shoulderWidth'', JNum (s / 2.54)),
      (''chestCircumference'', JNum (c / 2.54)),
      (''waistCircumference'', JNum (w / 2.54)), (''hipCircumference'', JNum (hp / 2.54)),
      (''armLength'', JNum (a / 2.54)),
      (''inseam'', JNum (i / 2.54)), (''neckCircumference'', JNum (n / 2.54)),
      (''thighCircumference'', JNum (t / 2.54)),
      (''confidence'', JNum cf), (''unit'', unit)]"
  by (simp add: measurement_keys_def then_res_def truediv_exact_def)

lemma extract_measurements_imperial:
  assumes "map_of kvs ''unit'' = Some (JStr ''imperial'')"
  shows "extract_measurements g (JObj kvs) =
     Inr (JObj [(''measurements'', JObj
     [(''height'', JNum ((170 + g 0 * 20) / 2.54)),
      (''shoulderWidth'', JNum ((40 + g 1 * 10) / 2.54)),
      (''chestCircumference'', JNum ((90 + g 2 * 15) / 2.54)),
      (''waistCircumference'', JNum ((75 + g 3 * 15) / 2.54)),
      (''hipCircumference'', JNum ((95 + g 4 * 15) / 2.54)),
      (''armLength'', JNum ((55 + g 5 * 10) / 2.54)),
      (''inseam'', JNum ((75 + g 6 * 10) / 2.54)),
      (''neckCircumference'', JNum ((35 + g 7 * 5) / 2.54)),
      (''thighCircumference'', JNum ((50 + g 8 * 10) / 2.54)),
      (''confidence'', JNum 0.89),
      (''unit'', JStr ''imperial'')])])"
  using assms
  by (simp only: extract_measurements_def py_get.simps then_res_def option.case sum.case
      base_measurements_draws to_imperial_base simp_thms if_True)

lemma extract_measurements_other:
  assumes "map_of kvs ''unit'' \<noteq> Some (JStr ''imperial'')"
  shows "extract_measurements g (JObj kvs) =
     Inr (JObj [(''measurements'', JObj
     [(''height'', JNum (170 + g 0 * 20)),
      (''shoulderWidth'', JNum (40 + g 1 * 10)),
      (''chestCircumference'', JNum (90 + g 2 * 15)),
      (''waistCircumference'', JNum (75 + g 3 * 15)),
      (''hipCircumference'', JNum (95 + g 4 * 15)),
      (''armLength'', JNum (55 + g 5 * 10)),
      (''inseam'', JNum (75 + g 6 * 10)),
      (''neckCircumference'', JNum (35 + g 7 * 5)),
      (''thighCircumference'', JNum (50 + g 8 * 10)),
      (''confidence'', JNum 0.89),
      (''unit'', case map_of kvs ''unit'' of None \<Rightarrow> JStr ''metric'' | Some u \<Rightarrow> u)])])"
proof -
  have "(case map_of kvs ''unit'' of None \<Rightarrow> JStr ''metric'' | Some u \<Rightarrow> u) \<noteq> JStr ''imperial''"
    using assms by (auto split: option.splits)
  then show ?thesis
    by (simp add: extract_measurements_def then_res_def base_measurements_draws)
qed


lemma measurement_ranges:
  assumes "valid_rng g"
  shows "170 \<le> 170 + g 0 * 20 \<and> 170 + g 0 * 20 \<le> 190"
        "40 \<le> 40 + g 1 * 10 \<and> 40 + g 1 * 10 \<le> 50"
        "90 \<le> 90 + g 2 * 15 \<and> 90 + g 2 * 15 \<le> 105"
        "75 \<le> 75 + g 3 * 15 \<and> 75 + g 3 * 15 \<le> 90"
        "95 \<le> 95 + g 4 * 15 \<and> 95 + g 4 * 15 \<le> 110"
        "55 \<le> 55 + g 5 * 10 \<and> 55 + g 5 * 10 \<le> 65"
        "75 \<le> 75 + g 6 * 10 \<and> 75 + g 6 * 10 \<le> 85"
        "35 \<le> 35 + g 7 * 5 \<and> 35 + g 7 * 5 \<le> 40"
        "50 \<le> 50 + g 8 * 10 \<and> 50 + g 8 * 10 \<le> 60"
proof -
  have "0 \<le> g k \<and> g k < 1" for k
    using assms by (simp add: valid_rng_def)
  from this[of 0] this[of 1] this[of 2] this[of 3] this[of 4] this[of 5] this[of 6] this[of 7] this[of 8]
  show "170 \<le> 170 + g 0 * 20 \<and> 170 + g 0 * 20 \<le> 190" "40 \<le> 40 + g 1 * 10 \<and> 40 + g 1 * 10 \<le> 50" "90 \<le> 90 + g 2 * 15 \<and> 90 + g 2 * 15 \<le> 105" "75 \<le> 75 + g 3 * 15 \<and> 75 + g 3 * 15 \<le> 90" "95 \<le> 95 + g 4 * 15 \<and> 95 + g 4 * 15 \<le> 110" "55 \<le> 55 + g 5 * 10 \<and> 55 + g 5 * 10 \<le> 65" "75 \<le> 75 + g 6 * 10 \<and> 75 + g 6 * 10 \<le> 85" "35 \<le> 35 + g 7 * 5 \<and> 35 + g 7 * 5 \<le> 40" "50 \<le> 50 + g 8 * 10 \<and> 50 + g 8 * 10 \<le> 60"
    by simp_all
qed

text \<open>
  C8, as amended. For every measurement-extraction request and every valid generator, the
  response carries the nine fields, \<open>confidence\<close> 0.89 and \<open>unit\<close> equal to the request's
  \<open>unit\<close>, or \<open>metric\<close> when the request has none. When the request's unit is not the string
  \<open>imperial\<close>, each of the nine fields lies within its metric range.
\<close>

theorem extract_measurements_ranges:
  assumes "valid_rng g"
  shows "\<exists>height shoulderWidth chest waist hip armLength inseam neck thigh.
           extract_measurements g (JObj kvs) =
             Inr (JObj [(''measurements'', JObj
               [(''height'', JNum height),
                (''shoulderWidth'', JNum shoulderWidth),
                (''chestCircumference'', JNum chest),
                (''waistCircumference'', JNum waist),
                (''hipCircumference'', JNum hip),
                (''armLength'', JNum armLength),
                (''inseam'', JNum inseam),
                (''neckCircumference'', JNum neck),
                (''thighCircumference'', JNum thigh),
                (''confidence'', JNum 0.89),
                (''unit'', (case map_of kvs ''unit'' of None \<Rightarrow> JStr ''metric'' | Some u \<Rightarrow> u))])])
           \<and> (map_of kvs ''unit'' \<noteq> Some (JStr ''imperial'') \<longrightarrow>
               170 \<le> height \<and> height \<le> 190
             \<and> 40 \<le> shoulderWidth \<and> shoulderWidth \<le> 50
             \<and> 90 \<le> chest \<and> chest \<le> 105
             \<and> 75 \<le> waist \<and> waist \<le> 90
             \<and> 95 \<le> hip \<and> hip \<le> 110
             \<and> 55 \<le> armLength \<and> armLength \<le> 65
             \<and> 75 \<le> inseam \<and> inseam \<le> 85
             \<and> 35 \<le> neck \<and> neck \<le> 40
             \<and> 50 \<le> thigh \<and> thigh \<le> 60)"
proof (cases "map_of kvs ''unit'' = Some (JStr ''imperial'')")
  case True
  then have "(case map_of kvs ''unit'' of None \<Rightarrow> JStr ''metric'' | Some u \<Rightarrow> u) = JStr ''imperial''"
    by simp
  with extract_measurements_imperial[OF True, of g] have
    "extract_measurements g (JObj kvs) =
     Inr (JObj [(''measurements'', JObj
     [(''height'', JNum ((170 + g 0 * 20) / 2.54)),
      (''shoulderWidth'', JNum ((40 + g 1 * 10) / 2.54)),
      (''chestCircumference'', JNum ((90 + g 2 * 15) / 2.54)),
      (''waistCircumference'', JNum ((75 + g 3 * 15) / 2.54)),
      (''hipCircumference'', JNum ((95 + g 4 * 15) / 2.54)),
      (''armLength'', JNum ((55 + g 5 * 10) / 2.54)),
      (''inseam'', JNum ((75 + g 6 * 10) / 2.54)),
      (''neckCircumference'', JNum ((35 + g 7 * 5) / 2.54)),
      (''thighCircumference'', JNum ((50 + g 8 * 10) / 2.54)),
      (''confidence'', JNum 0.89),
      (''unit'', case map_of kvs ''unit'' of None \<Rightarrow> JStr ''metric'' | Some u \<Rightarrow> u)])])"
    by simp
  then show ?thesis
    apply (intro exI conjI)
     apply assumption
    using True apply simp
    done
next
  case False
  from extract_measurements_other[OF False, of g] measurement_ranges[OF assms] show ?thesis
    by blast
qed

text \<open>The theorem at a request without \<open>unit\<close> and the generator that always draws one
  half: every field is the middle of its range.\<close>

theorem extract_measurements_ranges_witness:
  "valid_rng (\<lambda>k. 1 / 2)
   \<and> map_of [(''landmarks'', JObj [])] ''unit'' \<noteq> Some (JStr ''imperial'')
   \<and> extract_measurements (\<lambda>k. 1 / 2) (JObj [(''landmarks'', JObj [])]) =
       Inr (JObj [(''measurements'', JObj
               [(''height'', JNum 180),
                (''shoulderWidth'', JNum 45),
                (''chestCircumference'', JNum (195 / 2)),
                (''waistCircumference'', JNum (165 / 2)),
                (''hipCircumference'', JNum (205 / 2)),
                (''armLength'', JNum 60),
                (''inseam'', JNum 80),
                (''neckCircumference'', JNum (75 / 2)),
                (''thighCircumference'', JNum 55),
                (''confidence'', JNum 0.89),
                (''unit'', JStr ''metric'')])])"
  using extract_measurements_ranges[of "\<lambda>k. 1 / 2" "[(''landmarks'', JObj [])]"]
  by (simp add: valid_rng_def extract_measurements_other)

text \<open>
  C8, as stated, fails for a request with unit \<open>imperial\<close>: with every draw 0 the height is
  \<open>170 / 2.54\<close>, below 170, and so for the other eight fields.
\<close>

theorem extract_measurements_imperial_counterexample:
  "valid_rng (\<lambda>k. 0)
   \<and> extract_measurements (\<lambda>k. 0) (JObj [(''landmarks'', JObj []), (''unit'', JStr ''imperial'')]) =
       Inr (JObj [(''measurements'', JObj
               [(''height'', JNum (170 / 2.54)),
                (''shoulderWidth'', JNum (40 / 2.54)),
                (''chestCircumference'', JNum (90 / 2.54)),
                (''waistCircumference'', JNum (75 / 2.54)),
                (''hipCircumference'', JNum (95 / 2.54)),
                (''armLength'', JNum (55 / 2.54)),
                (''inseam'', JNum (75 / 2.54)),
                (''neckCircumference'', JNum (35 / 2.54)),
                (''thighCircumference'', JNum (50 / 2.54)),
                (''confidence'', JNum 0.89),
                (''unit'', JStr ''imperial'')])])
   \<and> (170 / 2.54 :: rat) < 170"
  by (simp add: valid_rng_def extract_measurements_imperial)

text \<open>
  C3. For the same valid generator, a request with unit \<open>imperial\<close> and a request with any
  other unit (or none): each of the nine fields of the imperial response is the field of
  the other response divided by 2.54 and differs from it, \<open>confidence\<close> is 0.89 in both,
  the imperial \<open>unit\<close> is the string \<open>imperial\<close>, undivided, and the two responses differ.
\<close>

theorem extract_measurements_imperial_divides:
  assumes "valid_rng g"
    and "map_of imperial ''unit'' = Some (JStr ''imperial'')"
    and "map_of kvs ''unit'' \<noteq> Some (JStr ''imperial'')"
  shows "\<exists>height shoulderWidth chest waist hip armLength inseam neck thigh unit.
           extract_measurements g (JObj kvs) =
             Inr (JObj [(''measurements'', JObj
               [(''height'', JNum height),
                (''shoulderWidth'', JNum shoulderWidth),
                (''chestCircumference'', JNum chest),
                (''waistCircumference'', JNum waist),
                (''hipCircumference'', JNum hip),
                (''armLength'', JNum armLength),
                (''inseam'', JNum inseam),
                (''neckCircumference'', JNum neck),
                (''thighCircumference'', JNum thigh),
                (''confidence'', JNum 0.89),
                (''unit'', unit)])])
           \<and> extract_measurements g (JObj imperial) =
             Inr (JObj [(''measurements'', JObj
               [(''height'', JNum (height / 2.54)),
                (''shoulderWidth'', JNum (shoulderWidth / 2.54)),
                (''chestCircumference'', JNum (chest / 2.54)),
                (''waistCircumference'', JNum (waist / 2.54)),
                (''hipCircumference'', JNum (hip / 2.54)),
                (''armLength'', JNum (armLength / 2.54)),
                (''inseam'', JNum (inseam / 2.54)),
                (''neckCircumference'', JNum (neck / 2.54)),
                (''thighCircumference'', JNum (thigh / 2.54)),
                (''confidence'', JNum 0.89),
                (''unit'', JStr ''imperial'')])])
           \<and> height / 2.54 \<noteq> height
           \<and> shoulderWidth / 2.54 \<noteq> shoulderWidth
           \<and> chest / 2.54 \<noteq> chest
           \<and> waist / 2.54 \<noteq> waist
           \<and> hip / 2.54 \<noteq> hip
           \<and> armLength / 2.54 \<noteq> armLength
           \<and> inseam / 2.54 \<noteq> inseam
           \<and> neck / 2.54 \<noteq> neck
           \<and> thigh / 2.54 \<noteq> thigh
           \<and> extract_measurements g (JObj imperial) \<noteq> extract_measurements g (JObj kvs)"
proof -
  have pos: "x / 2.54 \<noteq> x" if "0 < x" for x :: rat
    using that by simp
  from measurement_ranges[OF assms(1)] have
    "(170 + g 0 * 20) / 2.54 \<noteq> (170 + g 0 * 20)"
    "(40 + g 1 * 10) / 2.54 \<noteq> (40 + g 1 * 10)"
    "(90 + g 2 * 15) / 2.54 \<noteq> (90 + g 2 * 15)"
    "(75 + g 3 * 15) / 2.54 \<noteq> (75 + g 3 * 15)"
    "(95 + g 4 * 15) / 2.54 \<noteq> (95 + g 4 * 15)"
    "(55 + g 5 * 10) / 2.54 \<noteq> (55 + g 5 * 10)"
    "(75 + g 6 * 10) / 2.54 \<noteq> (75 + g 6 * 10)"
    "(35 + g 7 * 5) / 2.54 \<noteq> (35 + g 7 * 5)"
    "(50 + g 8 * 10) / 2.54 \<noteq> (50 + g 8 * 10)"
    by (simp_all add: pos)
  moreover from this(1) have "extract_measurements g (JObj imperial) \<noteq> extract_measurements g (JObj kvs)"
    by (simp only: extract_measurements_imperial[OF assms(2)] extract_measurements_other[OF assms(3)])
       simp
  ultimately show ?thesis
    using extract_measurements_imperial[OF assms(2), of g] extract_measurements_other[OF assms(3), of g]
    by blast
qed

text \<open>The theorem at an imperial and a metric request, every draw one half.\<close>

theorem extract_measurements_imperial_divides_witness:
  "valid_rng (\<lambda>k. 1 / 2)
   \<and> map_of [(''landmarks'', JObj []), (''unit'', JStr ''imperial'')] ''unit'' = Some (JStr ''imperial'')
   \<and> map_of [(''landmarks'', JObj []), (''unit'', JStr ''metric'')] ''unit'' \<noteq> Some (JStr ''imperial'')
   \<and> extract_measurements (\<lambda>k. 1 / 2) (JObj [(''landmarks'', JObj []), (''unit'', JStr ''imperial'')])
      \<noteq> extract_measurements (\<lambda>k. 1 / 2) (JObj [(''landmarks'', JObj []), (''unit'', JStr ''metric'')])"
proof -
  have g: "valid_rng (\<lambda>k. 1 / 2)"
    by (simp add: valid_rng_def)
  have i: "map_of [(''landmarks'', JObj []), (''unit'', JStr ''imperial'')] ''unit'' = Some (JStr ''imperial'')"
    by simp
  have m: "map_of [(''landmarks'', JObj []), (''unit'', JStr ''metric'')] ''unit'' \<noteq> Some (JStr ''imperial'')"
    by simp
  from extract_measurements_imperial_divides[OF g i m] g i m show ?thesis
    by blast
qed

subsection \<open>Malformed photo entries\<close>

lemma process_photos_fails:
  assumes "p \<in> set photos" and "masked_photo p = Inl e"
  shows "\<exists>e'. process_photos acc photos = Inl e'"
  using assms
proof (induction photos arbitrary: acc)
  case Nil
  then show ?case by simp
next
  case (Cons photo photos)
  show ?case
  proof (cases "masked_photo photo")
    case (Inl e')
    then show ?thesis by (simp add: then_res_def)
  next
    case (Inr q)
    with Cons.prems have "p \<in> set photos" by auto
    from Cons.IH[OF this Cons.prems(2)] obtain e' where
      "process_photos (acc @ [q]) photos = Inl e'" by blast
    with Inr show ?thesis by (simp add: then_res_def)
  qed
qed

lemma process_photos_first_failure:
  assumes "list_all well_formed_photo good" and "masked_photo p = Inl e"
  shows "process_photos acc (good @ p # rest) = Inl e"
  using assms
proof (induction good arbitrary: acc)
  case Nil
  then show ?case by (simp add: then_res_def)
next
  case (Cons photo good)
  then have "well_formed_photo photo" by simp
  from masked_photo_well_formed[OF this] obtain q where "masked_photo photo = Inr q"
    by blast
  moreover from Cons have "process_photos (acc @ [q]) (good @ p # rest) = Inl e"
    by simp
  ultimately show ?case by (simp add: then_res_def)
qed

lemma masked_photo_malformed:
  assumes "map_of pk ''url'' = None \<or> map_of pk ''type'' = None"
  shows "\<exists>e. masked_photo (JObj pk) = Inl e"
proof (cases "map_of pk ''url''")
  case None
  then show ?thesis by (simp add: masked_photo_def then_res_def)
next
  case (Some u)
  with assms have t: "map_of pk ''type'' = None" by simp
  show ?thesis
    by (cases u) (simp_all add: masked_photo_def then_res_def Some t)
qed

lemma masked_photo_no_url:
  "map_of pk ''url'' = None \<Longrightarrow> masked_photo (JObj pk) = Inl (KeyError ''url'')"
  by (simp add: masked_photo_def then_res_def)

lemma masked_photo_no_type:
  "map_of pk ''url'' = Some (JStr u) \<Longrightarrow> map_of pk ''type'' = None \<Longrightarrow>
   masked_photo (JObj pk) = Inl (KeyError ''type'')"
  by (simp add: masked_photo_def then_res_def)

lemma remove_background_failure:
  assumes "map_of kvs ''photos'' = Some (JArr photos)" and "process_photos [] photos = Inl e"
  shows "remove_background (JObj kvs) = Inl e"
  using assms by (simp add: remove_background_def then_res_def)

text \<open>
  C5, as amended. For every background-removal request whose photo list contains a dict
  without \<open>url\<close> or without \<open>type\<close>, the handler fails with an exception that leaves it,
  answered with status 500 and not with a client error. When the photos before that entry
  are well formed, the exception is \<open>KeyError('url')\<close> if the entry has no \<open>url\<close>, and
  \<open>KeyError('type')\<close> if its \<open>url\<close> is a string and it has no \<open>type\<close>.
\<close>

theorem remove_background_malformed_photo:
  assumes photos: "map_of kvs ''photos'' = Some (JArr photos)"
    and entry: "JObj pk \<in> set photos"
    and malformed: "map_of pk ''url'' = None \<or> map_of pk ''type'' = None"
  shows "(\<exists>e. remove_background (JObj kvs) = Inl e)
         \<and> http_status (remove_background (JObj kvs)) = 500
         \<and> \<not> client_error (http_status (remove_background (JObj kvs)))
         \<and> (\<forall>good rest. photos = good @ JObj pk # rest \<and> list_all well_formed_photo good
              \<and> map_of pk ''url'' = None
              \<longrightarrow> remove_background (JObj kvs) = Inl (KeyError ''url''))
         \<and> (\<forall>good rest u. photos = good @ JObj pk # rest \<and> list_all well_formed_photo good
              \<and> map_of pk ''url'' = Some (JStr u)
              \<longrightarrow> remove_background (JObj kvs) = Inl (KeyError ''type''))"
proof -
  from masked_photo_malformed[OF malformed] obtain e where "masked_photo (JObj pk) = Inl e"
    by blast
  from process_photos_fails[OF entry this] obtain e' where "process_photos [] photos = Inl e'"
    by blast
  from remove_background_failure[OF photos this]
  have fail: "remove_background (JObj kvs) = Inl e'" .
  then have status: "http_status (remove_background (JObj kvs)) = 500"
    by (simp add: http_status_def)
  have url: "remove_background (JObj kvs) = Inl (KeyError ''url'')"
    if "photos = good @ JObj pk # rest" "list_all well_formed_photo good" "map_of pk ''url'' = None"
    for good rest
    using remove_background_failure[OF photos]
      process_photos_first_failure[OF that(2) masked_photo_no_url[OF that(3)]] that(1)
    by simp
  have type: "remove_background (JObj kvs) = Inl (KeyError ''type'')"
    if "photos = good @ JObj pk # rest" "list_all well_formed_photo good"
      "map_of pk ''url'' = Some (JStr u)"
    for good rest u
  proof -
    from that(3) malformed have "map_of pk ''type'' = None" by simp
    from remove_background_failure[OF photos]
      process_photos_first_failure[OF that(2) masked_photo_no_type[OF that(3) this]] that(1)
    show ?thesis by simp
  qed
  from fail status url type show ?thesis
    by (simp add: client_error_def)
qed

text \<open>The theorem at a list whose second photo has no \<open>type\<close>.\<close>

theorem remove_background_malformed_photo_witness:
  "map_of [(''photos'', JArr [JObj [(''url'', JStr ''a.jpg''), (''type'', JStr ''front'')],
                              JObj [(''url'', JStr ''b.png'')]])] ''photos''
     = Some (JArr [JObj [(''url'', JStr ''a.jpg''), (''type'', JStr ''front'')],
                   JObj [(''url'', JStr ''b.png'')]])
   \<and> JObj [(''url'', JStr ''b.png'')]
       \<in> set [JObj [(''url'', JStr ''a.jpg''), (''type'', JStr ''front'')], JObj [(''url'', JStr ''b.png'')]]
   \<and> map_of [(''url'', JStr ''b.png'')] ''type'' = None
   \<and> remove_background
        (JObj [(''photos'', JArr [JObj [(''url'', JStr ''a.jpg''), (''type'', JStr ''front'')],
                                  JObj [(''url'', JStr ''b.png'')]])])
     = Inl (KeyError ''type'')
   \<and> http_status (remove_background
        (JObj [(''photos'', JArr [JObj [(''url'', JStr ''a.jpg''), (''type'', JStr ''front'')],
                                  JObj [(''url'', JStr ''b.png'')]])])) = 500"
  using remove_background_malformed_photo
    [of "[(''photos'', JArr [JObj [(''url'', JStr ''a.jpg''), (''type'', JStr ''front'')],
                              JObj [(''url'', JStr ''b.png'')]])]"
        "[JObj [(''url'', JStr ''a.jpg''), (''type'', JStr ''front'')], JObj [(''url'', JStr ''b.png'')]]"
        "[(''url'', JStr ''b.png'')]"]
  by (simp add: remove_background_def then_res_def masked_photo_def http_status_def)

text \<open>
  C5, as stated, fails: a photo without \<open>url\<close> raises \<open>KeyError('url')\<close>, nothing catches
  it, and the status is 500, which is no client error.
\<close>

theorem remove_background_malformed_photo_counterexample:
  "remove_background (JObj [(''photos'', JArr [JObj [(''type'', JStr ''front'')]])])
     = Inl (KeyError ''url'')
   \<and> http_status (remove_background (JObj [(''photos'', JArr [JObj [(''type'', JStr ''front'')]])]))
     = 500
   \<and> \<not> client_error
        (http_status (remove_background (JObj [(''photos'', JArr [JObj [(''type'', JStr ''front'')]])])))"
  by (simp add: remove_background_def then_res_def masked_photo_def http_status_def client_error_def)

subsection \<open>Missing request fields\<close>

lemma remove_background_no_photos:
  "map_of kvs ''photos'' = None \<Longrightarrow>
   remove_background (JObj kvs) = Inr (JObj [(''processedPhotos'', JArr [])])"
  by (simp add: remove_background_def then_res_def)

lemma extract_measurements_returns:
  "\<exists>bm. extract_measurements g (JObj kvs) = Inr (JObj [(''measurements'', JObj bm)])"
proof (cases "map_of kvs ''unit'' = Some (JStr ''imperial'')")
  case True
  from extract_measurements_imperial[OF True, of g] show ?thesis by blast
next
  case False
  from extract_measurements_other[OF False, of g] show ?thesis by blast
qed

lemma classify_body_type_no_measurements:
  "map_of kvs ''measurements'' = None \<Longrightarrow> classify_body_type (JObj kvs) = Inl AttributeError"
  by (simp add: classify_body_type_def then_res_def)

text \<open>
  C7, as amended. Of the four handlers only body-type classification fails on a request
  body without its field: without \<open>measurements\<close> it raises AttributeError (the missing
  value is \<open>None\<close>, which has no \<open>get\<close>), answered with status 500. Background removal and
  pose detection read a missing \<open>photos\<close> as the empty list and succeed, the first with an
  empty list of processed photos; measurement extraction never uses \<open>landmarks\<close> and
  succeeds without it.
\<close>

theorem missing_required_field:
  "(map_of kvs ''photos'' = None \<longrightarrow>
      remove_background (JObj kvs) = Inr (JObj [(''processedPhotos'', JArr [])])
    \<and> http_status (remove_background (JObj kvs)) = 200
    \<and> (\<exists>points. detect_pose g (JObj kvs) =
          Inr (JObj [(''landmarks'',
                 JObj [(''points'', JArr points), (''averageConfidence'', JNum 0.92)])]))
    \<and> http_status (detect_pose g (JObj kvs)) = 200)
   \<and> (map_of kvs ''landmarks'' = None \<longrightarrow>
        (\<exists>bm. extract_measurements g (JObj kvs) = Inr (JObj [(''measurements'', JObj bm)]))
      \<and> http_status (extract_measurements g (JObj kvs)) = 200)
   \<and> (map_of kvs ''measurements'' = None \<longrightarrow>
        classify_body_type (JObj kvs) = Inl AttributeError
      \<and> http_status (classify_body_type (JObj kvs)) = 500)"
proof -
  have pose: "detect_pose g (JObj kvs) =
     Inr (JObj [(''landmarks'',
           JObj [(''points'',
                  JArr (map (\<lambda>k. landmark_point (g (3 * k)) (g (3 * k + 1)) (g (3 * k + 2)) k
                                     (landmark_names ! k)) [0..<33])),
                 (''averageConfidence'', JNum 0.92)])])"
    if "map_of kvs ''photos'' = None"
    by (rule detect_pose_points[where photos = "JArr []" and n = 0]) (simp_all add: that)
  from extract_measurements_returns[of g kvs]
  have ex: "http_status (extract_measurements g (JObj kvs)) = 200"
    by (auto simp: http_status_def)
  show ?thesis
    using pose remove_background_no_photos[of kvs] classify_body_type_no_measurements[of kvs]
      extract_measurements_returns[of g kvs] ex
    by (auto simp: http_status_def)
qed

text \<open>The theorem at a request body that has none of the three fields.\<close>

theorem missing_required_field_witness:
  "map_of [(''unit'', JStr ''metric'')] ''photos'' = None
   \<and> map_of [(''unit'', JStr ''metric'')] ''landmarks'' = None
   \<and> map_of [(''unit'', JStr ''metric'')] ''measurements'' = None
   \<and> remove_background (JObj [(''unit'', JStr ''metric'')]) = Inr (JObj [(''processedPhotos'', JArr [])])
   \<and> http_status (detect_pose (\<lambda>k. 0) (JObj [(''unit'', JStr ''metric'')])) = 200
   \<and> http_status (extract_measurements (\<lambda>k. 0) (JObj [(''unit'', JStr ''metric'')])) = 200
   \<and> classify_body_type (JObj [(''unit'', JStr ''metric'')]) = Inl AttributeError
   \<and> http_status (classify_body_type (JObj [(''unit'', JStr ''metric'')])) = 500"
  using missing_required_field[of "[(''unit'', JStr ''metric'')]" "\<lambda>k. 0"]
  by (simp add: http_status_def)

text \<open>
  C7, as stated, fails: the empty request body has no \<open>photos\<close>, and background removal
  succeeds on it with status 200.
\<close>

theorem missing_photos_counterexample:
  "map_of ([] :: (string \<times> json) list) ''photos'' = None
   \<and> remove_background (JObj []) = Inr (JObj [(''processedPhotos'', JArr [])])
   \<and> http_status (remove_background (JObj [])) = 200"
  by (simp add: remove_background_def then_res_def http_status_def)

subsection \<open>The aggregate confidence\<close>

lemma confidence_of_landmark_point:
  "confidence_of (landmark_point rx rz rc i name) = 0.85 + rc * 0.1"
  by (simp add: landmark_point_def)

lemma detect_pose_cases:
  "detect_pose g data = Inl AttributeError \<or> detect_pose g data = Inl TypeError
   \<or> (\<exists>points. detect_pose g data =
          Inr (JObj [(''landmarks'',
                 JObj [(''points'', JArr points), (''averageConfidence'', JNum 0.92)])]))"
proof (cases "py_get data ''photos'' (JArr [])")
  case (Inl e)
  then have "e = AttributeError" by (cases data) simp_all
  with Inl show ?thesis by (simp add: detect_pose_def then_res_def)
next
  case (Inr photos)
  show ?thesis
  proof (cases "py_len photos")
    case (Inl e)
    then have "e = TypeError" by (cases photos) simp_all
    with Inl Inr show ?thesis by (simp add: detect_pose_def then_res_def)
  next
    case len: (Inr n)
    from detect_pose_points[OF Inr len, of g] show ?thesis by blast
  qed
qed

text \<open>
  C9. Whatever the generator and the request, pose detection either fails (the body is no
  dict, or \<open>photos\<close> has no length) or answers with \<open>averageConfidence\<close> 0.92. The value is
  not the average of the per-point confidences: with every draw 0 those average 0.85.
\<close>

theorem average_confidence_constant:
  "(detect_pose g data = Inl AttributeError \<or> detect_pose g data = Inl TypeError
    \<or> (\<exists>points. detect_pose g data =
          Inr (JObj [(''landmarks'',
                 JObj [(''points'', JArr points), (''averageConfidence'', JNum 0.92)])])))
   \<and> (\<exists>points. valid_rng (\<lambda>k. 0)
        \<and> detect_pose (\<lambda>k. 0) (JObj [(''photos'', JArr [])]) =
            Inr (JObj [(''landmarks'',
                   JObj [(''points'', JArr points), (''averageConfidence'', JNum 0.92)])])
        \<and> mean_confidence points = 0.85
        \<and> mean_confidence points \<noteq> 0.92)"
proof -
  let ?points = "map (\<lambda>k. landmark_point 0 0 0 k (landmark_names ! k)) [0..<33]"
  have "detect_pose (\<lambda>k. 0) (JObj [(''photos'', JArr [])]) =
            Inr (JObj [(''landmarks'',
                   JObj [(''points'', JArr ?points), (''averageConfidence'', JNum 0.92)])])"
    by (rule detect_pose_points[where photos = "JArr []" and n = 0]) simp_all
  moreover have m: "mean_confidence ?points = 0.85"
    by (simp add: mean_confidence_def comp_def confidence_of_landmark_point sum_list_triv
        del: upt_Suc)
  moreover from m have "mean_confidence ?points \<noteq> 0.92"
    by simp
  moreover have "valid_rng (\<lambda>k. 0)"
    by (simp add: valid_rng_def)
  ultimately show ?thesis
    using detect_pose_cases[of g data] by blast
qed

subsection \<open>Dependence on the draws\<close>

lemma detect_pose_differs:
  assumes "g1 0 \<noteq> g2 0"
    and "py_get data ''photos'' (JArr []) = Inr photos" and "py_len photos = Inr n"
  shows "detect_pose g1 data \<noteq> detect_pose g2 data"
proof
  assume "detect_pose g1 data = detect_pose g2 data"
  then have "map (\<lambda>k. landmark_point (g1 (3 * k)) (g1 (3 * k + 1)) (g1 (3 * k + 2)) k
                                     (landmark_names ! k)) [0..<33]
      = map (\<lambda>k. landmark_point (g2 (3 * k)) (g2 (3 * k + 1)) (g2 (3 * k + 2)) k
                                     (landmark_names ! k)) [0..<33]"
    by (simp only: detect_pose_points[OF assms(2,3)]) simp
  from arg_cong[OF this, of "\<lambda>points. points ! 0"] have "g1 0 = g2 0"
    by (simp add: landmark_point_def del: upt_Suc)
  with assms(1) show False by simp
qed

lemma extract_measurements_differs:
  assumes "g1 0 \<noteq> g2 0"
  shows "extract_measurements g1 (JObj kvs) \<noteq> extract_measurements g2 (JObj kvs)"
proof (cases "map_of kvs ''unit'' = Some (JStr ''imperial'')")
  case True
  from assms show ?thesis
    by (simp only: extract_measurements_imperial[OF True]) simp
next
  case False
  from assms show ?thesis
    by (simp only: extract_measurements_other[OF False]) simp
qed

text \<open>
  C10. Pose detection and measurement extraction are not functions of the request alone:
  there are two valid generators under which every request with a photo list gets
  different pose responses and every request body gets different measurement responses.
\<close>

theorem outputs_depend_on_draws:
  "\<exists>g1 g2. valid_rng g1 \<and> valid_rng g2
     \<and> (\<forall>photos. detect_pose g1 (JObj [(''photos'', JArr photos)])
                  \<noteq> detect_pose g2 (JObj [(''photos'', JArr photos)]))
     \<and> (\<forall>kvs. extract_measurements g1 (JObj kvs) \<noteq> extract_measurements g2 (JObj kvs))"
proof -
  let ?g1 = "\<lambda>k::nat. 0 :: rat" and ?g2 = "\<lambda>k::nat. 1 / 2 :: rat"
  have d: "?g1 0 \<noteq> ?g2 0" by simp
  have "valid_rng ?g1" "valid_rng ?g2"
    by (simp_all add: valid_rng_def)
  moreover have "detect_pose ?g1 (JObj [(''photos'', JArr photos)])
                  \<noteq> detect_pose ?g2 (JObj [(''photos'', JArr photos)])" for photos
    by (rule detect_pose_differs[OF d, where photos = "JArr photos" and n = "length photos"])
       simp_all
  moreover have "extract_measurements ?g1 (JObj kvs) \<noteq> extract_measurements ?g2 (JObj kvs)" for kvs
    by (rule extract_measurements_differs[OF d])
  ultimately show ?thesis by blast
qed

end
